theory Spec2Isabelle
  imports Complex_Main "HOL-Library.Word" "HOL-Library.Signed_Division"
    "HOL-Library.Product_Lexorder" "HOL-Library.Sublist"
begin

section \<open>Machine integers and the standard-library calls of the sources\<close>

text \<open>
  The repository holds two drafts of the same simulation: the single-file one
  (\<^verbatim>\<open>p2p-gossip-simulation.cc\<close>, members prefixed \<^verbatim>\<open>m_\<close>) and the split one
  (\<^verbatim>\<open>p2pnode.cc\<close> with \<^verbatim>\<open>p2pnetwork.cc\<close>).  Both are embedded.  The functions of the
  split draft keep their names; those of the single-file draft carry the suffix
  \<open>_sim\<close>, and its record fields keep the prefix \<open>m_\<close> they have in the source.
\<close>

type_synonym uint32 = "32 word"
type_synonym uint64 = "64 word"

text \<open>The exceptions \<^verbatim>\<open>std::stoul\<close> and \<^verbatim>\<open>std::stod\<close> throw.  Nothing in the
  sources catches them, so a call that throws ends the operation it stands in.\<close>

datatype error = invalid_argument | out_of_range

text \<open>\<^verbatim>\<open>str.find(pat, pos)\<close>: the index of the first occurrence of \<open>pat\<close> at or after
  \<open>pos\<close>; \<open>None\<close> is \<^verbatim>\<open>std::string::npos\<close>.\<close>

fun find_first :: "string \<Rightarrow> string \<Rightarrow> nat option" where
  "find_first pat [] = (if pat = [] then Some 0 else None)"
| "find_first pat (c # cs) =
     (if take (length pat) (c # cs) = pat then Some 0
      else map_option Suc (find_first pat cs))"

definition str_find :: "string \<Rightarrow> string \<Rightarrow> nat \<Rightarrow> nat option" where
  "str_find str pat pos =
     (if length str < pos then None
      else map_option (\<lambda>k. pos + k) (find_first pat (drop pos str)))"

text \<open>\<^verbatim>\<open>p + 1\<close> on a \<^verbatim>\<open>size_t\<close> result of \<^verbatim>\<open>find\<close>: \<^verbatim>\<open>npos\<close> is the largest
  \<^verbatim>\<open>size_t\<close>, so \<^verbatim>\<open>npos + 1\<close> wraps to 0.\<close>

definition pos_plus1 :: "nat option \<Rightarrow> nat" where
  "pos_plus1 p = (case p of None \<Rightarrow> 0 | Some i \<Rightarrow> i + 1)"

text \<open>\<^verbatim>\<open>str.substr(pos, n)\<close> and \<^verbatim>\<open>str.substr(pos)\<close>, for \<open>pos \<le> length str\<close> (every
  call of the sources passes the index after a colon that was found).\<close>

definition substr :: "string \<Rightarrow> nat \<Rightarrow> nat \<Rightarrow> string" where
  "substr str pos n = take n (drop pos str)"

definition substr_from :: "string \<Rightarrow> nat \<Rightarrow> string" where
  "substr_from str pos = drop pos str"

text \<open>\<^verbatim>\<open>std::stoul(s)\<close> is \<^verbatim>\<open>strtoul(s, &end, 10)\<close>: leading white space is skipped,
  one sign is accepted, the longest run of decimal digits is read and whatever follows
  is ignored.  No digit: \<^verbatim>\<open>std::invalid_argument\<close>.  A magnitude above
  \<^verbatim>\<open>ULONG_MAX\<close>: \<^verbatim>\<open>std::out_of_range\<close>.  A minus sign negates the value in
  \<^verbatim>\<open>unsigned long\<close>, taken as 64 bits wide (LP64).\<close>

definition isspace :: "char \<Rightarrow> bool" where
  "isspace c = (of_char c = (32::nat) \<or> (9 \<le> (of_char c :: nat) \<and> (of_char c :: nat) \<le> 13))"

definition isdigit :: "char \<Rightarrow> bool" where
  "isdigit c = (48 \<le> (of_char c :: nat) \<and> (of_char c :: nat) \<le> 57)"

definition digit_value :: "char \<Rightarrow> nat" where
  "digit_value c = of_char c - 48"

definition decimal_value :: "string \<Rightarrow> nat" where
  "decimal_value ds = foldl (\<lambda>a c. 10 * a + digit_value c) 0 ds"

definition stoul :: "string \<Rightarrow> error + uint64" where
  "stoul s =
     (let s1 = dropWhile isspace s;
          neg = (case s1 of [] \<Rightarrow> False | c # _ \<Rightarrow> c = CHR ''-'');
          s2 = (case s1 of [] \<Rightarrow> []
                | c # cs \<Rightarrow> if c = CHR ''-'' \<or> c = CHR ''+'' then cs else s1);
          ds = takeWhile isdigit s2
      in if ds = [] then Inl invalid_argument
         else if 2 ^ 64 \<le> decimal_value ds then Inl out_of_range
         else Inr (if neg then - word_of_nat (decimal_value ds)
                   else word_of_nat (decimal_value ds)))"

text \<open>\<^verbatim>\<open>ss << n\<close> and \<^verbatim>\<open>std::to_string(n)\<close> for an unsigned integer: its decimal digits.\<close>

definition digit_char :: "nat \<Rightarrow> char" where
  "digit_char d = ''0123456789'' ! d"

fun to_string :: "nat \<Rightarrow> string" where
  "to_string n = (if n < 10 then [digit_char n] else to_string (n div 10) @ [digit_char (n mod 10)])"

declare to_string.simps [simp del]

text \<open>What the sources take from the platform and from ns-3.  The time stamp is a
  \<^verbatim>\<open>double\<close>; its type is the parameter \<open>'d\<close>, and parsing, printing and reading the
  clock in seconds are functions of the platform.  \<^verbatim>\<open>std::hash<uint64_t>\<close> is
  implementation-defined.\<close>

record 'd platform =
  stod :: "string \<Rightarrow> error + 'd"
  put_double :: "'d \<Rightarrow> string"
  GetSeconds :: "uint64 \<Rightarrow> 'd"
  hasher :: "uint64 \<Rightarrow> uint64"

section \<open>Share\<close>

text \<open>\<^verbatim>\<open>struct Share\<close>.  \<open>nodesVisited\<close> is a member in the single-file draft only.\<close>

record 'd Share =
  originNodeId :: uint32
  shareId :: uint32
  timestamp :: 'd
  nodesVisited :: "uint32 set"

definition ToString :: "'d platform \<Rightarrow> 'd Share \<Rightarrow> string" where
  "ToString P share =
     ''SHARE:'' @ to_string (unat (originNodeId share)) @ '':'' @
     to_string (unat (shareId share)) @ '':'' @ put_double P (timestamp share)"

text \<open>\<^verbatim>\<open>Share::FromString\<close>.  \<open>share0\<close> is the local \<^verbatim>\<open>Share share;\<close> as its
  declaration leaves it: the struct gives its scalar members no initialiser, so the
  value they hold is not fixed by the code; \<open>nodesVisited\<close> is constructed empty.\<close>

definition FromString :: "'d platform \<Rightarrow> 'd Share \<Rightarrow> string \<Rightarrow> error + 'd Share" where
  "FromString P share0 str =
     (let share = share0\<lparr>nodesVisited := {}\<rparr>;
          firstColon = str_find str '':'' 0;
          secondColon = str_find str '':'' (pos_plus1 firstColon);
          thirdColon = str_find str '':'' (pos_plus1 secondColon)
      in case (firstColon, secondColon, thirdColon) of
           (Some p1, Some p2, Some p3) \<Rightarrow>
             (case stoul (substr str (p1 + 1) (p2 - p1 - 1)) of
                Inl e \<Rightarrow> Inl e
              | Inr a \<Rightarrow>
                 (case stoul (substr str (p2 + 1) (p3 - p2 - 1)) of
                    Inl e \<Rightarrow> Inl e
                  | Inr b \<Rightarrow>
                     (case stod P (substr_from str (p3 + 1)) of
                        Inl e \<Rightarrow> Inl e
                      | Inr t \<Rightarrow>
                          Inr (share\<lparr>originNodeId := ucast a, shareId := ucast b,
                                      timestamp := t\<rparr>))))
         | _ \<Rightarrow> Inr share)"

text \<open>\<^verbatim>\<open>Share::operator==\<close> and \<^verbatim>\<open>std::hash<Share>\<close> of the single-file draft;
  \<open>h\<close> is \<^verbatim>\<open>std::hash<uint32_t>\<close>.\<close>

definition Share_eq :: "'d Share \<Rightarrow> 'd Share \<Rightarrow> bool" where
  "Share_eq s other = (originNodeId s = originNodeId other \<and> shareId s = shareId other)"

definition Share_hash :: "(uint32 \<Rightarrow> uint64) \<Rightarrow> 'd Share \<Rightarrow> uint64" where
  "Share_hash h share = xor (h (originNodeId share)) (h (shareId share))"

section \<open>The node of the split draft (\<^verbatim>\<open>p2pnode.cc\<close>)\<close>

text \<open>What a node does to the rest of the simulation goes through two calls of ns-3:
  \<^verbatim>\<open>Socket::Send\<close> and \<^verbatim>\<open>Simulator::Schedule\<close>.  The record below is that outside:
  \<open>sends\<close> lists the calls of \<^verbatim>\<open>Send\<close> made so far, each with the peer the node was
  addressing, the handle, the bytes and the value returned; \<open>sendResult k\<close> is the value
  the call number \<open>k\<close> returns.  \<open>scheduled\<close> lists the delays of the
  \<^verbatim>\<open>GenerateAndGossipShare\<close> events handed to the scheduler, \<open>draws k\<close> being draw
  number \<open>k\<close> of the node's \<^verbatim>\<open>uniform_real_distribution(2.0, 5.0)\<close>.  \<open>closed_sockets\<close> holds
  the handles closed.  \<open>generating\<close> lists the log lines
  \<^verbatim>\<open>Node <id> generating new share <shareId>\<close>, each as the pair of the two numbers it
  prints.\<close>

record 'sock send_call =
  to_peer :: uint32
  handle :: 'sock
  bytes :: string
  returned :: int

record 'sock world =
  sendResult :: "nat \<Rightarrow> int"
  sends :: "'sock send_call list"
  draws :: "nat \<Rightarrow> real"
  scheduled :: "real list"
  closed_sockets :: "'sock set"
  generating :: "(uint32 \<times> uint32) list"

definition Send :: "uint32 \<Rightarrow> 'sock \<Rightarrow> string \<Rightarrow> 'sock world \<Rightarrow> int \<times> 'sock world" where
  "Send peerId socket msg w =
     (let bytesSent = sendResult w (length (sends w))
      in (bytesSent,
          w\<lparr>sends := sends w @
               [\<lparr>to_peer = peerId, handle = socket, bytes = msg, returned = bytesSent\<rparr>]\<rparr>))"

text \<open>\<^verbatim>\<open>class P2PNode\<close>.  Its declaration is in \<^verbatim>\<open>p2pnode.h\<close>; the member types are
  read off their uses: \<open>processedShares\<close> holds what \<^verbatim>\<open>insert(share.shareId)\<close> puts in
  it, \<open>peersockets\<close> maps a peer id to a handle.  The member \<^verbatim>\<open>id\<close> is \<open>id_node\<close> here.\<close>

record 'sock P2PNode =
  id_node :: uint32
  peers :: "uint32 list"
  peersockets :: "uint32 \<rightharpoonup> 'sock"
  serverSocket :: "'sock option"
  processedShares :: "uint32 set"
  sharesSent :: uint32
  sharesReceived :: uint32
  sharesGenerated :: uint32
  sharesForwarded :: uint32
  isrunning :: bool

text \<open>The constructor \<^verbatim>\<open>P2PNode::P2PNode(id)\<close>.\<close>

definition P2PNode_new :: "uint32 \<Rightarrow> 'sock P2PNode" where
  "P2PNode_new i =
     \<lparr>id_node = i, peers = [], peersockets = Map.empty, serverSocket = None,
      processedShares = {}, sharesSent = 0, sharesReceived = 0, sharesGenerated = 0,
      sharesForwarded = 0, isrunning = False\<rparr>"

text \<open>\<^verbatim>\<open>P2PNode::SetupServerSocket\<close>; \<open>s\<close> is the socket it creates.\<close>

definition SetupServerSocket :: "'sock \<Rightarrow> 'sock P2PNode \<Rightarrow> 'sock P2PNode" where
  "SetupServerSocket s n = n\<lparr>serverSocket := Some s\<rparr>"

text \<open>\<^verbatim>\<open>P2PNode::Stop\<close>.\<close>

definition Stop :: "'sock P2PNode \<times> 'sock world \<Rightarrow> 'sock P2PNode \<times> 'sock world" where
  "Stop nw =
     (let (n, w) = nw;
          n1 = n\<lparr>isrunning := False\<rparr>;
          w1 = (case serverSocket n1 of None \<Rightarrow> w
                | Some s \<Rightarrow> w\<lparr>closed_sockets := insert s (closed_sockets w)\<rparr>);
          w2 = w1\<lparr>closed_sockets := closed_sockets w1 \<union> ran (peersockets n1)\<rparr>
      in (n1\<lparr>peersockets := Map.empty\<rparr>, w2))"

definition AddPeer :: "uint32 \<Rightarrow> 'sock P2PNode \<Rightarrow> 'sock P2PNode" where
  "AddPeer peerId n =
     (if peerId \<notin> set (peers n) then n\<lparr>peers := peers n @ [peerId]\<rparr> else n)"

definition AddPeerSocket :: "uint32 \<Rightarrow> 'sock \<Rightarrow> 'sock P2PNode \<Rightarrow> 'sock P2PNode" where
  "AddPeerSocket peerId socket n = n\<lparr>peersockets := (peersockets n)(peerId \<mapsto> socket)\<rparr>"

definition ScheduleNextShare :: "'sock world \<Rightarrow> 'sock world" where
  "ScheduleNextShare w =
     (let nextTime = draws w (length (scheduled w))
      in w\<lparr>scheduled := scheduled w @ [nextTime]\<rparr>)"

definition StartGeneratingShares ::
  "'sock P2PNode \<times> 'sock world \<Rightarrow> 'sock P2PNode \<times> 'sock world" where
  "StartGeneratingShares nw =
     (let (n, w) = nw in (n\<lparr>isrunning := True\<rparr>, ScheduleNextShare w))"

text \<open>\<^verbatim>\<open>P2PNode::GenerateUniqueShareId\<close>; \<open>now\<close> is
  \<^verbatim>\<open>Simulator::Now().GetTimeStep()\<close>, an \<^verbatim>\<open>int64_t\<close>, and \<^verbatim>\<open>%\<close> truncates.
  \<open>ShareId_seed i g now\<close> is the value of its local \<^verbatim>\<open>seed\<close> when the member \<^verbatim>\<open>id\<close> is
  \<open>i\<close> and the member \<^verbatim>\<open>sharesGenerated\<close> is \<open>g\<close>.\<close>

definition ShareId_seed :: "uint32 \<Rightarrow> uint32 \<Rightarrow> uint64 \<Rightarrow> uint64" where
  "ShareId_seed i g now =
     (ucast i :: uint64) * 1000000 + (ucast g :: uint64) * 1000 +
     word_of_int (sint now smod 1000)"

definition GenerateUniqueShareId :: "'d platform \<Rightarrow> uint64 \<Rightarrow> 'sock P2PNode \<Rightarrow> uint32" where
  "GenerateUniqueShareId P now n =
     (let seed = ShareId_seed (id_node n) (sharesGenerated n) now in ucast (hasher P seed))"

text \<open>\<^verbatim>\<open>P2PNode::GossipShareToPeers\<close>: the loop over \<^verbatim>\<open>peers\<close>, which its body does
  not change.\<close>

fun GossipShareToPeers_loop ::
  "'d platform \<Rightarrow> 'd Share \<Rightarrow> uint32 list \<Rightarrow> 'sock P2PNode \<times> 'sock world \<Rightarrow>
   'sock P2PNode \<times> 'sock world" where
  "GossipShareToPeers_loop P share [] nw = nw"
| "GossipShareToPeers_loop P share (peerId # rest) nw =
     (let (n, w) = nw in
      case peersockets n peerId of
        None \<Rightarrow> GossipShareToPeers_loop P share rest (n, w)
      | Some peerSocket \<Rightarrow>
          (let shareMsg = ToString P share;
               (bytesSent, w1) = Send peerId peerSocket shareMsg w
           in if 0 < bytesSent
              then GossipShareToPeers_loop P share rest
                     (n\<lparr>sharesSent := sharesSent n + 1\<rparr>, w1)
              else GossipShareToPeers_loop P share rest
                     (n\<lparr>peersockets := (peersockets n)(peerId := None)\<rparr>, w1)))"

definition GossipShareToPeers ::
  "'d platform \<Rightarrow> 'd Share \<Rightarrow> 'sock P2PNode \<times> 'sock world \<Rightarrow> 'sock P2PNode \<times> 'sock world" where
  "GossipShareToPeers P share nw = GossipShareToPeers_loop P share (peers (fst nw)) nw"

text \<open>\<^verbatim>\<open>P2PNode::GenerateAndGossipShare\<close>, fired by the scheduler at time step \<open>now\<close>.\<close>

definition GenerateAndGossipShare ::
  "'d platform \<Rightarrow> uint64 \<Rightarrow> 'sock P2PNode \<times> 'sock world \<Rightarrow> 'sock P2PNode \<times> 'sock world" where
  "GenerateAndGossipShare P now nw =
     (let (n, w) = nw in
      if peers n = [] then (n, ScheduleNextShare w)
      else if \<not> isrunning n then (n, w)
      else
        let sid = GenerateUniqueShareId P now n;
            n1 = n\<lparr>sharesGenerated := sharesGenerated n + 1\<rparr>;
            share = \<lparr>originNodeId = id_node n1, shareId = sid,
                     timestamp = GetSeconds P now, nodesVisited = {}\<rparr>;
            n2 = n1\<lparr>processedShares := insert (shareId share) (processedShares n1)\<rparr>;
            w1 = w\<lparr>generating := generating w @ [(id_node n2, shareId share)]\<rparr>;
            (n3, w3) = GossipShareToPeers P share (n2, w1)
        in (n3, ScheduleNextShare w3))"

text \<open>\<^verbatim>\<open>P2PNode::ReceiveShare\<close>.  \<open>ReceiveShare_share\<close> is its lines 170 to 186, reached
  when the message is no registration.\<close>

definition ReceiveShare_share ::
  "'d platform \<Rightarrow> 'd Share \<Rightarrow> string \<Rightarrow> 'sock P2PNode \<times> 'sock world \<Rightarrow>
   error + 'sock P2PNode \<times> 'sock world" where
  "ReceiveShare_share P share0 shareMsg nw =
     (let (n, w) = nw;
          n1 = n\<lparr>sharesReceived := sharesReceived n + 1\<rparr>
      in case FromString P share0 shareMsg of
           Inl e \<Rightarrow> Inl e
         | Inr share \<Rightarrow>
             if shareId share \<in> processedShares n1 then Inr (n1, w)
             else
               let n2 = n1\<lparr>processedShares := insert (shareId share) (processedShares n1)\<rparr>;
                   n3 = n2\<lparr>sharesForwarded := sharesForwarded n2 + 1\<rparr>
               in Inr (GossipShareToPeers P share (n3, w)))"

definition ReceiveShare ::
  "'d platform \<Rightarrow> 'd Share \<Rightarrow> string \<Rightarrow> 'sock \<Rightarrow> 'sock P2PNode \<times> 'sock world \<Rightarrow>
   error + 'sock P2PNode \<times> 'sock world" where
  "ReceiveShare P share0 shareMsg socket nw =
     (let (n, w) = nw in
      if str_find shareMsg ''REGISTER:'' 0 = Some 0 then
        (case str_find shareMsg '':'' 0 of
           Some colonPos \<Rightarrow>
             (case stoul (substr_from shareMsg (colonPos + 1)) of
                Inl e \<Rightarrow> Inl e
              | Inr v \<Rightarrow>
                  let peerId = ucast v
                  in Inr (n\<lparr>peersockets := (peersockets n)(peerId \<mapsto> socket),
                            peers := peers n @ [peerId]\<rparr>, w))
         | None \<Rightarrow> ReceiveShare_share P share0 shareMsg (n, w))
      else ReceiveShare_share P share0 shareMsg (n, w))"

section \<open>The node of the single-file draft (\<^verbatim>\<open>p2p-gossip-simulation.cc\<close>)\<close>

text \<open>\<^verbatim>\<open>std::unordered_set<Share>\<close> with the draft's \<^verbatim>\<open>operator==\<close>: the members in
  the order they came in, no two of them equal under \<open>Share_eq\<close>.  \<open>uset_member\<close> is
  \<^verbatim>\<open>find(share) != end()\<close>.\<close>

definition uset_member :: "'d Share \<Rightarrow> 'd Share list \<Rightarrow> bool" where
  "uset_member share members = list_ex (Share_eq share) members"

definition uset_insert :: "'d Share \<Rightarrow> 'd Share list \<Rightarrow> 'd Share list" where
  "uset_insert share members =
     (if uset_member share members then members else members @ [share])"

text \<open>The outside of a node of this draft: \<open>sent_sim\<close> lists the calls of the callback
  \<^verbatim>\<open>m_onSendShare(peerId, msg)\<close>; the scheduler and the log of the shares created are as
  above.  The simulation sets the callback to \<^verbatim>\<open>SendShareToPeer\<close>, which hands the text to
  \<^verbatim>\<open>socket->Send\<close>; \<open>sendResult_sim k\<close> is the value that call returns in call number \<open>k\<close>
  of the callback.\<close>

record world_sim =
  sent_sim :: "(uint32 \<times> string) list"
  draws_sim :: "nat \<Rightarrow> real"
  scheduled_sim :: "real list"
  sendResult_sim :: "nat \<Rightarrow> int"
  generating_sim :: "(uint32 \<times> uint32) list"

record 'd P2PNode_sim =
  m_id :: uint32
  m_peers :: "uint32 list"
  m_processedShares :: "'d Share list"
  m_sharesSent :: uint32
  m_sharesReceived :: uint32
  m_sharesGenerated :: uint32
  m_sharesForwarded :: uint32

definition P2PNode_sim_new :: "uint32 \<Rightarrow> 'd P2PNode_sim" where
  "P2PNode_sim_new i =
     \<lparr>m_id = i, m_peers = [], m_processedShares = [], m_sharesSent = 0,
      m_sharesReceived = 0, m_sharesGenerated = 0, m_sharesForwarded = 0\<rparr>"

definition AddPeer_sim :: "uint32 \<Rightarrow> 'd P2PNode_sim \<Rightarrow> 'd P2PNode_sim" where
  "AddPeer_sim peerId n =
     (if peerId \<notin> set (m_peers n) then n\<lparr>m_peers := m_peers n @ [peerId]\<rparr> else n)"

definition ScheduleNextShare_sim :: "world_sim \<Rightarrow> world_sim" where
  "ScheduleNextShare_sim w =
     (let nextTime = draws_sim w (length (scheduled_sim w))
      in w\<lparr>scheduled_sim := scheduled_sim w @ [nextTime]\<rparr>)"

definition StartGeneratingShares_sim ::
  "'d P2PNode_sim \<times> world_sim \<Rightarrow> 'd P2PNode_sim \<times> world_sim" where
  "StartGeneratingShares_sim nw = (let (n, w) = nw in (n, ScheduleNextShare_sim w))"

text \<open>The callback \<^verbatim>\<open>m_onSendShare\<close>, a \<^verbatim>\<open>std::function<void(uint32_t, const std::string&)>\<close>:
  the value \<^verbatim>\<open>socket->Send\<close> returns inside it goes nowhere, and the node is told nothing.\<close>

definition m_onSendShare :: "uint32 \<Rightarrow> string \<Rightarrow> world_sim \<Rightarrow> world_sim" where
  "m_onSendShare peerId msg w =
     (let bytesSent = sendResult_sim w (length (sent_sim w))
      in w\<lparr>sent_sim := sent_sim w @ [(peerId, msg)]\<rparr>)"

fun GossipShareToPeers_sim_loop ::
  "'d platform \<Rightarrow> 'd Share \<Rightarrow> uint32 list \<Rightarrow> 'd P2PNode_sim \<times> world_sim \<Rightarrow>
   'd P2PNode_sim \<times> world_sim" where
  "GossipShareToPeers_sim_loop P share [] nw = nw"
| "GossipShareToPeers_sim_loop P share (peerId # rest) nw =
     (let (n, w) = nw;
          w1 = m_onSendShare peerId (ToString P share) w
      in GossipShareToPeers_sim_loop P share rest
           (n\<lparr>m_sharesSent := m_sharesSent n + 1\<rparr>, w1))"

definition GossipShareToPeers_sim ::
  "'d platform \<Rightarrow> 'd Share \<Rightarrow> 'd P2PNode_sim \<times> world_sim \<Rightarrow> 'd P2PNode_sim \<times> world_sim" where
  "GossipShareToPeers_sim P share nw =
     GossipShareToPeers_sim_loop P share (m_peers (fst nw)) nw"

text \<open>The share \<^verbatim>\<open>GenerateAndGossipShare\<close> builds before it counts it:
  \<^verbatim>\<open>share.shareId = m_sharesGenerated++\<close>.\<close>

definition new_share_sim :: "'d platform \<Rightarrow> uint64 \<Rightarrow> 'd P2PNode_sim \<Rightarrow> 'd Share" where
  "new_share_sim P now n =
     \<lparr>originNodeId = m_id n, shareId = m_sharesGenerated n,
      timestamp = GetSeconds P now, nodesVisited = {m_id n}\<rparr>"

definition GenerateAndGossipShare_sim ::
  "'d platform \<Rightarrow> uint64 \<Rightarrow> 'd P2PNode_sim \<times> world_sim \<Rightarrow> 'd P2PNode_sim \<times> world_sim" where
  "GenerateAndGossipShare_sim P now nw =
     (let (n, w) = nw in
      if m_peers n = [] then (n, ScheduleNextShare_sim w)
      else
        let share = new_share_sim P now n;
            n1 = n\<lparr>m_sharesGenerated := m_sharesGenerated n + 1\<rparr>;
            n2 = n1\<lparr>m_processedShares := uset_insert share (m_processedShares n1)\<rparr>;
            w1 = w\<lparr>generating_sim := generating_sim w @ [(m_id n2, shareId share)]\<rparr>;
            (n3, w3) = GossipShareToPeers_sim P share (n2, w1)
        in (n3, ScheduleNextShare_sim w3))"

definition ReceiveShare_sim ::
  "'d platform \<Rightarrow> 'd Share \<Rightarrow> string \<Rightarrow> 'd P2PNode_sim \<times> world_sim \<Rightarrow>
   error + 'd P2PNode_sim \<times> world_sim" where
  "ReceiveShare_sim P share0 shareMsg nw =
     (let (n, w) = nw;
          n1 = n\<lparr>m_sharesReceived := m_sharesReceived n + 1\<rparr>
      in case FromString P share0 shareMsg of
           Inl e \<Rightarrow> Inl e
         | Inr share \<Rightarrow>
             if uset_member share (m_processedShares n1) then Inr (n1, w)
             else
               let n2 = n1\<lparr>m_processedShares := uset_insert share (m_processedShares n1)\<rparr>;
                   share1 = share\<lparr>nodesVisited := insert (m_id n2) (nodesVisited share)\<rparr>;
                   n3 = n2\<lparr>m_sharesForwarded := m_sharesForwarded n2 + 1\<rparr>
               in Inr (GossipShareToPeers_sim P share1 (n3, w)))"

section \<open>The topology of the single-file draft\<close>

text \<open>\<^verbatim>\<open>class P2PGossipNetworkSimulation\<close>, as far as the topology goes: the nodes and the
  keys of \<^verbatim>\<open>m_connections\<close> (the values are ns-3 handles).  \<^verbatim>\<open>m_nodes\<close> has as many
  entries as \<open>m_p2pNodes\<close>.  Indexing either outside its range is a fault.\<close>

datatype fault = index_out_of_range

record 'd Simulation_sim =
  m_p2pNodes :: "'d P2PNode_sim list"
  m_connections :: "(nat \<times> nat) set"

text \<open>The constructor, for \<^verbatim>\<open>uint32_t numNodes\<close>.\<close>

definition P2PGossipNetworkSimulation_sim :: "uint32 \<Rightarrow> 'd Simulation_sim" where
  "P2PGossipNetworkSimulation_sim numNodes =
     \<lparr>m_p2pNodes = map (\<lambda>i. P2PNode_sim_new (of_nat i)) [0..<unat numNodes],
      m_connections = {}\<rparr>"

definition ConnectNodes_sim :: "nat \<Rightarrow> nat \<Rightarrow> 'd Simulation_sim \<Rightarrow> fault + 'd Simulation_sim" where
  "ConnectNodes_sim i j sim =
     (if length (m_p2pNodes sim) \<le> i \<or> length (m_p2pNodes sim) \<le> j
      then Inl index_out_of_range
      else
        let sim1 = sim\<lparr>m_connections := insert (i, j) (m_connections sim)\<rparr>;
            nodes1 = (m_p2pNodes sim1)[i := AddPeer_sim (of_nat j) (m_p2pNodes sim1 ! i)];
            nodes2 = nodes1[j := AddPeer_sim (of_nat i) (nodes1 ! j)]
        in Inr (sim1\<lparr>m_p2pNodes := nodes2\<rparr>))"

text \<open>\<^verbatim>\<open>CreateRandomTopology\<close>.  The random numbers are given from outside: \<open>dist_rng k\<close> is
  draw number \<open>k\<close> of \<^verbatim>\<open>dist(rng)\<close> and \<open>nodeDist k\<close> draw number \<open>k\<close> of
  \<^verbatim>\<open>nodeDist(rng)\<close>; the state beside the simulation counts the draws made.  First the
  two nested loops over the pairs \<open>i < j\<close>.\<close>

fun connect_row_sim ::
  "real \<Rightarrow> (nat \<Rightarrow> real) \<Rightarrow> nat \<Rightarrow> nat list \<Rightarrow> 'd Simulation_sim \<times> nat \<Rightarrow>
   fault + 'd Simulation_sim \<times> nat" where
  "connect_row_sim p dist_rng i [] sk = Inr sk"
| "connect_row_sim p dist_rng i (j # js) sk =
     (let (sim, k) = sk in
      if dist_rng k < p
      then (case ConnectNodes_sim i j sim of
              Inl f \<Rightarrow> Inl f
            | Inr sim1 \<Rightarrow> connect_row_sim p dist_rng i js (sim1, Suc k))
      else connect_row_sim p dist_rng i js (sim, Suc k))"

fun connect_rows_sim ::
  "real \<Rightarrow> (nat \<Rightarrow> real) \<Rightarrow> nat \<Rightarrow> nat list \<Rightarrow> 'd Simulation_sim \<times> nat \<Rightarrow>
   fault + 'd Simulation_sim \<times> nat" where
  "connect_rows_sim p dist_rng numNodes [] sk = Inr sk"
| "connect_rows_sim p dist_rng numNodes (i # is) sk =
     (case connect_row_sim p dist_rng i [Suc i..<numNodes] sk of
        Inl f \<Rightarrow> Inl f
      | Inr sk1 \<Rightarrow> connect_rows_sim p dist_rng numNodes is sk1)"

text \<open>The loop \<^verbatim>\<open>while (j == i) j = nodeDist(rng);\<close> after the first draw: it returns the
  peer drawn and the number of draws made, or it does not return.\<close>

partial_function (option) draw_other :: "(nat \<Rightarrow> nat) \<Rightarrow> nat \<Rightarrow> nat \<Rightarrow> (nat \<times> nat) option" where
  "draw_other nodeDist i k =
     (let j = nodeDist k in
      if j = i then draw_other nodeDist i (Suc k) else Some (j, Suc k))"

text \<open>The loop that gives every node without a peer one link.  \<open>None\<close>: it does not
  return.\<close>

fun link_lonely_sim ::
  "(nat \<Rightarrow> nat) \<Rightarrow> nat list \<Rightarrow> 'd Simulation_sim \<times> nat \<Rightarrow>
   (fault + 'd Simulation_sim \<times> nat) option" where
  "link_lonely_sim nodeDist [] sk = Some (Inr sk)"
| "link_lonely_sim nodeDist (i # is) sk =
     (let (sim, k) = sk in
      if m_peers (m_p2pNodes sim ! i) = []
      then (case draw_other nodeDist i k of
              None \<Rightarrow> None
            | Some (j, k1) \<Rightarrow>
                (case ConnectNodes_sim i j sim of
                   Inl f \<Rightarrow> Some (Inl f)
                 | Inr sim1 \<Rightarrow> link_lonely_sim nodeDist is (sim1, k1)))
      else link_lonely_sim nodeDist is (sim, k))"

definition CreateRandomTopology_sim ::
  "real \<Rightarrow> (nat \<Rightarrow> real) \<Rightarrow> (nat \<Rightarrow> nat) \<Rightarrow> 'd Simulation_sim \<Rightarrow>
   (fault + 'd Simulation_sim) option" where
  "CreateRandomTopology_sim connectionProbability dist_rng nodeDist sim =
     (let numNodes = length (m_p2pNodes sim)
      in case connect_rows_sim connectionProbability dist_rng numNodes [0..<numNodes] (sim, 0) of
           Inl f \<Rightarrow> Some (Inl f)
         | Inr (sim1, k) \<Rightarrow>
             map_option (map_sum id fst) (link_lonely_sim nodeDist [0..<numNodes] (sim1, 0)))"

section \<open>The topology of the split draft (\<^verbatim>\<open>p2pnetwork.cc\<close>)\<close>

text \<open>The sockets of the simulation: the one node \<open>i\<close> listens on, the one node \<open>i\<close> opens
  towards node \<open>j\<close>, and the one node \<open>j\<close> accepts from node \<open>i\<close>.\<close>

datatype endpoint = Listening nat | Connecting nat nat | Accepted nat nat

text \<open>\<^verbatim>\<open>class P2PGossipNetworkSimulation\<close>: the nodes, the keys of the \<^verbatim>\<open>std::map\<close>
  \<open>connections\<close> in ascending order, which is the order \<^verbatim>\<open>makeconnections\<close> visits them
  in, and the outside the nodes share.\<close>

record Simulation =
  p2pNodes :: "endpoint P2PNode list"
  connections :: "(nat \<times> nat) list"
  net :: "endpoint world"

definition P2PGossipNetworkSimulation :: "uint32 \<Rightarrow> endpoint world \<Rightarrow> Simulation" where
  "P2PGossipNetworkSimulation numNodes w =
     \<lparr>p2pNodes = map (\<lambda>i. P2PNode_new (of_nat i)) [0..<unat numNodes],
      connections = [], net = w\<rparr>"

text \<open>\<^verbatim>\<open>connections[std::make_pair(i, j)] = connInfo\<close>.\<close>

definition map_assign :: "nat \<times> nat \<Rightarrow> (nat \<times> nat) list \<Rightarrow> (nat \<times> nat) list" where
  "map_assign key keys = (if key \<in> set keys then keys else insort key keys)"

definition ConnectNodes :: "nat \<Rightarrow> nat \<Rightarrow> Simulation \<Rightarrow> fault + Simulation" where
  "ConnectNodes i j sim =
     (if length (p2pNodes sim) \<le> i \<or> length (p2pNodes sim) \<le> j
      then Inl index_out_of_range
      else Inr (sim\<lparr>connections := map_assign (i, j) (connections sim)\<rparr>))"

text \<open>\<^verbatim>\<open>CreateRandomTopology\<close>: the inner loop with its flag \<^verbatim>\<open>connected\<close>, then the
  outer loop with the link it adds when the flag is not set.\<close>

fun connect_row ::
  "real \<Rightarrow> (nat \<Rightarrow> real) \<Rightarrow> nat \<Rightarrow> nat list \<Rightarrow> Simulation \<times> nat \<times> bool \<Rightarrow>
   fault + Simulation \<times> nat \<times> bool" where
  "connect_row p dist_rng i [] skc = Inr skc"
| "connect_row p dist_rng i (j # js) skc =
     (let (sim, k, connected_flag) = skc in
      if dist_rng k < p
      then (case ConnectNodes i j sim of
              Inl f \<Rightarrow> Inl f
            | Inr sim1 \<Rightarrow> connect_row p dist_rng i js (sim1, Suc k, True))
      else connect_row p dist_rng i js (sim, Suc k, connected_flag))"

fun connect_rows ::
  "real \<Rightarrow> (nat \<Rightarrow> real) \<Rightarrow> nat \<Rightarrow> nat list \<Rightarrow> Simulation \<times> nat \<Rightarrow>
   fault + Simulation \<times> nat" where
  "connect_rows p dist_rng numNodes [] sk = Inr sk"
| "connect_rows p dist_rng numNodes (i # is) sk =
     (let (sim, k) = sk in
      case connect_row p dist_rng i [Suc i..<numNodes] (sim, k, False) of
        Inl f \<Rightarrow> Inl f
      | Inr (sim1, k1, connected_flag) \<Rightarrow>
          if \<not> connected_flag
          then (case (if i = 0 \<and> 0 < numNodes then ConnectNodes 0 1 sim1
                      else ConnectNodes i (i - 1) sim1) of
                  Inl f \<Rightarrow> Inl f
                | Inr sim2 \<Rightarrow> connect_rows p dist_rng numNodes is (sim2, k1))
          else connect_rows p dist_rng numNodes is (sim1, k1))"

definition CreateRandomTopology ::
  "real \<Rightarrow> (nat \<Rightarrow> real) \<Rightarrow> Simulation \<Rightarrow> fault + Simulation" where
  "CreateRandomTopology connectionProbability dist_rng sim =
     (let numNodes = length (p2pNodes sim)
      in case connect_rows connectionProbability dist_rng numNodes [0..<numNodes] (sim, 0) of
           Inl f \<Rightarrow> Inl f
         | Inr (sim1, k) \<Rightarrow>
             Inr (sim1\<lparr>p2pNodes :=
                    map (\<lambda>i. SetupServerSocket (Listening i) (p2pNodes sim1 ! i))
                      [0..<numNodes]\<rparr>))"

text \<open>\<^verbatim>\<open>ConnectPeerSockets\<close> and \<^verbatim>\<open>makeconnections\<close>, the event
  \<^verbatim>\<open>CreateRandomTopology\<close> schedules.\<close>

definition ConnectPeerSockets :: "nat \<Rightarrow> nat \<Rightarrow> Simulation \<Rightarrow> fault + Simulation" where
  "ConnectPeerSockets i j sim =
     (if length (p2pNodes sim) \<le> i
      then Inl index_out_of_range
      else
        let socket = Connecting i j;
            n1 = AddPeerSocket (of_nat j) socket (p2pNodes sim ! i);
            n2 = AddPeer (of_nat j) n1;
            reg = ''REGISTER:'' @ to_string i;
            (bytesSent, w1) = Send (of_nat j) socket reg (net sim)
        in Inr (sim\<lparr>p2pNodes := (p2pNodes sim)[i := n2], net := w1\<rparr>))"

fun makeconnections_loop :: "(nat \<times> nat) list \<Rightarrow> Simulation \<Rightarrow> fault + Simulation" where
  "makeconnections_loop [] sim = Inr sim"
| "makeconnections_loop (connection # rest) sim =
     (case ConnectPeerSockets (fst connection) (snd connection) sim of
        Inl f \<Rightarrow> Inl f
      | Inr sim1 \<Rightarrow> makeconnections_loop rest sim1)"

definition makeconnections :: "Simulation \<Rightarrow> fault + Simulation" where
  "makeconnections sim = makeconnections_loop (connections sim) sim"




section \<open>Runs of a node\<close>

text \<open>The scheduler and the sockets call the member functions of a node one at a time.
  A run is the list of these calls; a call that throws ends it, since nothing catches
  the exception.  \<^verbatim>\<open>HandleRead\<close> is one \<open>Call_ReceiveShare\<close> for each packet read; each
  carries the value its uninitialised local \<^verbatim>\<open>Share share;\<close> happens to hold.\<close>

datatype ('d, 'sock) call =
    Call_SetupServerSocket 'sock
  | Call_AddPeer uint32
  | Call_AddPeerSocket uint32 'sock
  | Call_StartGeneratingShares
  | Call_GenerateAndGossipShare uint64
  | Call_ReceiveShare "'d Share" string 'sock
  | Call_Stop

fun step ::
  "'d platform \<Rightarrow> ('d, 'sock) call \<Rightarrow> 'sock P2PNode \<times> 'sock world \<Rightarrow>
   error + 'sock P2PNode \<times> 'sock world" where
  "step P (Call_SetupServerSocket s) nw = Inr (SetupServerSocket s (fst nw), snd nw)"
| "step P (Call_AddPeer p) nw = Inr (AddPeer p (fst nw), snd nw)"
| "step P (Call_AddPeerSocket p s) nw = Inr (AddPeerSocket p s (fst nw), snd nw)"
| "step P Call_StartGeneratingShares nw = Inr (StartGeneratingShares nw)"
| "step P (Call_GenerateAndGossipShare now) nw = Inr (GenerateAndGossipShare P now nw)"
| "step P (Call_ReceiveShare share0 msg s) nw = ReceiveShare P share0 msg s nw"
| "step P Call_Stop nw = Inr (Stop nw)"

fun run ::
  "'d platform \<Rightarrow> ('d, 'sock) call list \<Rightarrow> 'sock P2PNode \<times> 'sock world \<Rightarrow>
   error + 'sock P2PNode \<times> 'sock world" where
  "run P [] nw = Inr nw"
| "run P (c # cs) nw = (case step P c nw of Inl e \<Rightarrow> Inl e | Inr nw1 \<Rightarrow> run P cs nw1)"

fun is_ReceiveShare :: "('d, 'sock) call \<Rightarrow> bool" where
  "is_ReceiveShare (Call_ReceiveShare share0 msg s) = True"
| "is_ReceiveShare c = False"

datatype 'd call_sim =
    Sim_AddPeer uint32
  | Sim_StartGeneratingShares
  | Sim_GenerateAndGossipShare uint64
  | Sim_ReceiveShare "'d Share" string

fun step_sim ::
  "'d platform \<Rightarrow> 'd call_sim \<Rightarrow> 'd P2PNode_sim \<times> world_sim \<Rightarrow>
   error + 'd P2PNode_sim \<times> world_sim" where
  "step_sim P (Sim_AddPeer p) nw = Inr (AddPeer_sim p (fst nw), snd nw)"
| "step_sim P Sim_StartGeneratingShares nw = Inr (StartGeneratingShares_sim nw)"
| "step_sim P (Sim_GenerateAndGossipShare now) nw = Inr (GenerateAndGossipShare_sim P now nw)"
| "step_sim P (Sim_ReceiveShare share0 msg) nw = ReceiveShare_sim P share0 msg nw"

fun run_sim ::
  "'d platform \<Rightarrow> 'd call_sim list \<Rightarrow> 'd P2PNode_sim \<times> world_sim \<Rightarrow>
   error + 'd P2PNode_sim \<times> world_sim" where
  "run_sim P [] nw = Inr nw"
| "run_sim P (c # cs) nw =
     (case step_sim P c nw of Inl e \<Rightarrow> Inl e | Inr nw1 \<Rightarrow> run_sim P cs nw1)"

fun is_ReceiveShare_sim :: "'d call_sim \<Rightarrow> bool" where
  "is_ReceiveShare_sim (Sim_ReceiveShare share0 msg) = True"
| "is_ReceiveShare_sim c = False"

text \<open>The time steps at which the generation events of a list of calls fire.\<close>

fun event_times :: "('d, 'sock) call list \<Rightarrow> uint64 list" where
  "event_times [] = []"
| "event_times (Call_GenerateAndGossipShare now # cs) = now # event_times cs"
| "event_times (c # cs) = event_times cs"

text \<open>The number of colons of a message: \<^verbatim>\<open>FromString\<close> reads three fields when it finds
  three.\<close>

definition colons :: "string \<Rightarrow> nat" where
  "colons str = length (filter (\<lambda>c. c = CHR '':'') str)"

section \<open>Values to evaluate on\<close>

text \<open>A platform that keeps a time stamp as its text and parses every non-empty text;
  its \<^verbatim>\<open>std::hash\<close> is the identity, as in libstdc++ and libc++.\<close>

definition test_platform :: "string platform" where
  "test_platform =
     \<lparr>stod = (\<lambda>s. if s = [] then Inl invalid_argument else Inr s),
      put_double = (\<lambda>t. t),
      GetSeconds = (\<lambda>t. to_string (unat t)),
      hasher = (\<lambda>x. x)\<rparr>"

text \<open>An outside in which the second call of \<^verbatim>\<open>Send\<close> fails and every other succeeds.\<close>

definition test_world :: "nat world" where
  "test_world =
     \<lparr>sendResult = (\<lambda>k. if k = 1 then - 1 else 13), sends = [], draws = (\<lambda>k. 3),
      scheduled = [], closed_sockets = {}, generating = []\<rparr>"

text \<open>The same for the single-file draft.\<close>

definition test_world_sim :: world_sim where
  "test_world_sim =
     \<lparr>sent_sim = [], draws_sim = (\<lambda>k. 3), scheduled_sim = [],
      sendResult_sim = (\<lambda>k. if k = 1 then - 1 else 13), generating_sim = []\<rparr>"

definition test_share0 :: "string Share" where
  "test_share0 = \<lparr>originNodeId = 0, shareId = 0, timestamp = [], nodesVisited = {}\<rparr>"

text \<open>Node 3 with the peers 4, 5 and 6, of which 6 has no handle.\<close>

definition test_node :: "nat P2PNode" where
  "test_node = (P2PNode_new 3)\<lparr>peers := [4, 5, 6], peersockets := [4 \<mapsto> 40, 5 \<mapsto> 50]\<rparr>"

text \<open>The calls of \<^verbatim>\<open>Send\<close> when \<open>test_node\<close> floods the share 7 of origin 1 in
  \<open>test_world\<close>: the one to peer 4 succeeds, the one to peer 5 fails.\<close>

definition test_sends :: "nat send_call list" where
  "test_sends =
     [\<lparr>to_peer = 4, handle = 40, bytes = ''SHARE:1:7:0.5'', returned = 13\<rparr>,
      \<lparr>to_peer = 5, handle = 50, bytes = ''SHARE:1:7:0.5'', returned = - 1\<rparr>]"

definition test_node_sim :: "string P2PNode_sim" where
  "test_node_sim = (P2PNode_sim_new 3)\<lparr>m_peers := [4, 5]\<rparr>"

section \<open>Properties of a topology\<close>

text \<open>Every link has both ends among the nodes and is in the peer lists of both.\<close>

definition links_symmetric_sim :: "'d Simulation_sim \<Rightarrow> bool" where
  "links_symmetric_sim sim =
     (\<forall>(a, b) \<in> m_connections sim.
        a < length (m_p2pNodes sim) \<and> b < length (m_p2pNodes sim) \<and>
        of_nat b \<in> set (m_peers (m_p2pNodes sim ! a)) \<and>
        of_nat a \<in> set (m_peers (m_p2pNodes sim ! b)))"

text \<open>From \<open>sim\<close> to \<open>sim1\<close> no node is lost, no link is lost and no peer list loses a
  peer.\<close>

definition peers_kept_sim :: "'d Simulation_sim \<Rightarrow> 'd Simulation_sim \<Rightarrow> bool" where
  "peers_kept_sim sim sim1 =
     (length (m_p2pNodes sim1) = length (m_p2pNodes sim) \<and>
      m_connections sim \<subseteq> m_connections sim1 \<and>
      (\<forall>a < length (m_p2pNodes sim).
         set (m_peers (m_p2pNodes sim ! a)) \<subseteq> set (m_peers (m_p2pNodes sim1 ! a))))"

text \<open>The same for the split draft, where the link table stays as it is;
  \<open>links_in_range\<close> says that both ends of every link are nodes.\<close>

definition links_in_range :: "Simulation \<Rightarrow> bool" where
  "links_in_range sim =
     (\<forall>(a, b) \<in> set (connections sim).
        a < length (p2pNodes sim) \<and> b < length (p2pNodes sim))"


definition peers_kept :: "Simulation \<Rightarrow> Simulation \<Rightarrow> bool" where
  "peers_kept sim sim1 =
     (length (p2pNodes sim1) = length (p2pNodes sim) \<and>
      connections sim1 = connections sim \<and>
      (\<forall>a < length (p2pNodes sim).
         set (peers (p2pNodes sim ! a)) \<subseteq> set (peers (p2pNodes sim1 ! a))))"

text \<open>Two nodes to evaluate the topology on: the single-file simulation as constructed,
  and the split simulation with the link from node 0 to node 1 recorded.\<close>

definition test_net :: "endpoint world" where
  "test_net =
     \<lparr>sendResult = (\<lambda>k. 10), sends = [], draws = (\<lambda>k. 3), scheduled = [],
      closed_sockets = {}, generating = []\<rparr>"



section \<open>Properties\<close>

subsection \<open>Finding the colons\<close>

lemma find_first_None: "find_first [c] s = None \<longleftrightarrow> c \<notin> set s"
  by (induction s) auto

lemma find_first_Some:
  "find_first [c] s = Some k \<Longrightarrow> k < length s \<and> s ! k = c \<and> c \<notin> set (take k s)"
proof (induction s arbitrary: k)
  case Nil
  then show ?case by simp
next
  case (Cons a s)
  then show ?case by (auto split: if_splits)
qed

lemma colons_split:
  assumes "find_first '':'' s = Some k"
  shows "colons s = Suc (colons (drop (Suc k) s))"
proof -
  from find_first_Some [OF assms]
  have k: "k < length s" "s ! k = CHR '':''" "CHR '':'' \<notin> set (take k s)"
    by auto
  have "s = take k s @ s ! k # drop (Suc k) s"
    using k(1) by (simp add: id_take_nth_drop)
  then have "colons s = colons (take k s) + colons [s ! k] + colons (drop (Suc k) s)"
    unfolding colons_def by (metis append_Cons append_Nil filter_append length_append add.assoc)
  moreover have "colons (take k s) = 0"
    using k(3) unfolding colons_def by (auto simp: filter_empty_conv)
  ultimately show ?thesis using k(2) by (simp add: colons_def)
qed

lemma str_find_colon_None:
  "pos \<le> length s \<Longrightarrow> str_find s '':'' pos = None \<longleftrightarrow> colons (drop pos s) = 0"
  by (auto simp: str_find_def find_first_None colons_def filter_empty_conv)

lemma str_find_colon_Some:
  assumes "str_find s '':'' pos = Some p"
  shows "pos \<le> p \<and> p < length s \<and> colons (drop pos s) = Suc (colons (drop (Suc p) s))"
proof -
  from assms obtain k where k: "find_first '':'' (drop pos s) = Some k" "p = pos + k"
    by (auto simp: str_find_def split: if_splits)
  from find_first_Some [OF k(1)] have "k < length (drop pos s)" by simp
  then have "p < length s" using k(2) by simp
  moreover have "colons (drop pos s) = Suc (colons (drop (Suc k) (drop pos s)))"
    by (rule colons_split [OF k(1)])
  moreover have "drop (Suc k) (drop pos s) = drop (Suc p) s"
    using k(2) by (simp add: add.commute)
  ultimately show ?thesis using k(2) by simp
qed

lemma FromString_few_colons:
  assumes "colons str < 3"
  shows "FromString P share0 str = Inr (share0\<lparr>nodesVisited := {}\<rparr>)"
proof (cases "str_find str '':'' 0")
  case None
  then show ?thesis by (simp add: FromString_def)
next
  case (Some p1)
  from str_find_colon_Some [OF Some]
  have 1: "p1 < length str" "colons str = Suc (colons (drop (Suc p1) str))" by auto
  show ?thesis
  proof (cases "str_find str '':'' (Suc p1)")
    case None
    then show ?thesis using Some by (simp add: FromString_def pos_plus1_def)
  next
    case s2: (Some p2)
    from str_find_colon_Some [OF s2]
    have 2: "p2 < length str"
      "colons (drop (Suc p1) str) = Suc (colons (drop (Suc p2) str))" by auto
    have "str_find str '':'' (Suc p2) = None"
      using 1 2 assms str_find_colon_None [of "Suc p2" str] by simp
    then show ?thesis using Some s2 by (simp add: FromString_def pos_plus1_def)
  qed
qed

lemma FromString_three_colons:
  assumes "3 \<le> colons str"
  shows "\<exists>p1 p2 p3. str_find str '':'' 0 = Some p1 \<and> str_find str '':'' (Suc p1) = Some p2
           \<and> str_find str '':'' (Suc p2) = Some p3"
proof -
  have "str_find str '':'' 0 \<noteq> None"
    using assms str_find_colon_None [of 0 str] by auto
  then obtain p1 where p1: "str_find str '':'' 0 = Some p1" by auto
  from str_find_colon_Some [OF p1]
  have 1: "p1 < length str" "colons str = Suc (colons (drop (Suc p1) str))" by auto
  have "str_find str '':'' (Suc p1) \<noteq> None"
    using assms 1 str_find_colon_None [of "Suc p1" str] by auto
  then obtain p2 where p2: "str_find str '':'' (Suc p1) = Some p2" by auto
  from str_find_colon_Some [OF p2]
  have 2: "p2 < length str"
    "colons (drop (Suc p1) str) = Suc (colons (drop (Suc p2) str))" by auto
  have "str_find str '':'' (Suc p2) \<noteq> None"
    using assms 1 2 str_find_colon_None [of "Suc p2" str] by auto
  then obtain p3 where p3: "str_find str '':'' (Suc p2) = Some p3" by auto
  show ?thesis using p1 p2 p3 by blast
qed

text \<open>With three colons every member of the result is assigned, so the uninitialised
  local does not show in it.\<close>

lemma FromString_indep:
  assumes "3 \<le> colons str"
  shows "FromString P d1 str = FromString P d2 str"
proof -
  from FromString_three_colons [OF assms] obtain p1 p2 p3 where
    "str_find str '':'' 0 = Some p1" "str_find str '':'' (Suc p1) = Some p2"
    "str_find str '':'' (Suc p2) = Some p3" by blast
  then show ?thesis
    by (cases d1; cases d2) (simp add: FromString_def pos_plus1_def split: sum.splits)
qed

lemmas decode_simps =
  FromString_def str_find_def pos_plus1_def substr_def substr_from_def stoul_def
  isspace_def isdigit_def decimal_value_def digit_value_def test_platform_def

subsection \<open>What flooding leaves alone\<close>


lemma loop_frame:
  "GossipShareToPeers_loop P share ps (n, w) = (n', w') \<Longrightarrow>
   peers n' = peers n \<and> processedShares n' = processedShares n \<and> sharesReceived n' = sharesReceived n
   \<and> sharesForwarded n' = sharesForwarded n \<and> sharesGenerated n' = sharesGenerated n \<and> isrunning n' = isrunning n
   \<and> id_node n' = id_node n \<and> serverSocket n' = serverSocket n
   \<and> scheduled w' = scheduled w \<and> draws w' = draws w \<and> sendResult w' = sendResult w \<and> closed_sockets w' = closed_sockets w
   \<and> generating w' = generating w"
proof (induction ps arbitrary: n w)
  case Nil
  then show ?case by simp
next
  case (Cons p ps)
  then show ?case
    by (auto simp: Send_def Let_def split: option.splits if_splits prod.splits)
qed

lemma GossipShareToPeers_frame:
  assumes "GossipShareToPeers P share (n, w) = (n', w')"
  shows "peers n' = peers n" "processedShares n' = processedShares n" "sharesReceived n' = sharesReceived n"
   "sharesForwarded n' = sharesForwarded n" "sharesGenerated n' = sharesGenerated n" "isrunning n' = isrunning n"
   "id_node n' = id_node n" "serverSocket n' = serverSocket n"
   "scheduled w' = scheduled w" "draws w' = draws w" "sendResult w' = sendResult w" "closed_sockets w' = closed_sockets w"
   "generating w' = generating w"
  using loop_frame [of P share "peers n" n w n' w'] assms by (simp_all add: GossipShareToPeers_def)

lemma loop_sim_frame:
  "GossipShareToPeers_sim_loop P share ps (n, w) = (n', w') \<Longrightarrow>
   m_peers n' = m_peers n \<and> m_processedShares n' = m_processedShares n \<and> m_sharesReceived n' = m_sharesReceived n
   \<and> m_sharesForwarded n' = m_sharesForwarded n \<and> m_sharesGenerated n' = m_sharesGenerated n 
   \<and> m_id n' = m_id n \<and> m_sharesSent n' = m_sharesSent n + of_nat (length ps)
   \<and> scheduled_sim w' = scheduled_sim w \<and> draws_sim w' = draws_sim w
   \<and> sent_sim w' = sent_sim w @ map (\<lambda>p. (p, ToString P share)) ps
   \<and> sendResult_sim w' = sendResult_sim w \<and> generating_sim w' = generating_sim w"
proof (induction ps arbitrary: n w)
  case Nil
  then show ?case by simp
next
  case (Cons p ps)
  then show ?case
    by (auto simp: m_onSendShare_def Let_def split: option.splits if_splits prod.splits)
qed

lemma GossipShareToPeers_sim_frame:
  assumes "GossipShareToPeers_sim P share (n, w) = (n', w')"
  shows "m_peers n' = m_peers n" "m_processedShares n' = m_processedShares n" "m_sharesReceived n' = m_sharesReceived n"
   "m_sharesForwarded n' = m_sharesForwarded n" "m_sharesGenerated n' = m_sharesGenerated n"
   "m_id n' = m_id n" "m_sharesSent n' = m_sharesSent n + of_nat (length (m_peers n))"
   "scheduled_sim w' = scheduled_sim w" "draws_sim w' = draws_sim w"
   "sent_sim w' = sent_sim w @ map (\<lambda>p. (p, ToString P share)) (m_peers n)"
   "sendResult_sim w' = sendResult_sim w" "generating_sim w' = generating_sim w"
  using loop_sim_frame [of P share "m_peers n" n w n' w'] assms by (simp_all add: GossipShareToPeers_sim_def)

subsection \<open>Delivering a share twice\<close>

lemma ReceiveShare_not_register:
  "str_find msg ''REGISTER:'' 0 \<noteq> Some 0 \<Longrightarrow> ReceiveShare P d msg s nw = ReceiveShare_share P d msg nw"
  by (simp add: ReceiveShare_def split: prod.splits)

lemma ReceiveShare_share_decoded:
  assumes "FromString P d msg = Inr S"
  shows "ReceiveShare_share P d msg (n, w) =
     Inr (if shareId S \<in> processedShares n then (n\<lparr>sharesReceived := sharesReceived n + 1\<rparr>, w)
          else GossipShareToPeers P S
                 (n\<lparr>sharesReceived := sharesReceived n + 1,
                    processedShares := insert (shareId S) (processedShares n),
                    sharesForwarded := sharesForwarded n + 1\<rparr>, w))"
  using assms by (simp add: ReceiveShare_share_def Let_def)

lemma ReceiveShare_share_Inr:
  assumes "ReceiveShare_share P d msg (n, w) = Inr (n1, w1)"
  obtains S where "FromString P d msg = Inr S"
  using assms by (auto simp: ReceiveShare_share_def Let_def split: sum.splits)

lemma ReceiveShare_twice_split:
  assumes reg: "str_find msg ''REGISTER:'' 0 \<noteq> Some 0"
      and col: "3 \<le> colons msg"
      and first: "ReceiveShare P d1 msg s1 (n, w) = Inr (n1, w1)"
  shows "\<exists>S. FromString P d1 msg = Inr S \<and> shareId S \<in> processedShares n1 \<and>
           (if shareId S \<in> processedShares n
            then n1 = n\<lparr>sharesReceived := sharesReceived n + 1\<rparr> \<and> w1 = w
            else sharesForwarded n1 = sharesForwarded n + 1 \<and>
                 processedShares n1 = insert (shareId S) (processedShares n) \<and>
                 (n1, w1) = GossipShareToPeers P S
                   (n\<lparr>sharesReceived := sharesReceived n + 1,
                      processedShares := insert (shareId S) (processedShares n),
                      sharesForwarded := sharesForwarded n + 1\<rparr>, w)) \<and>
           ReceiveShare P d2 msg s2 (n1, w1) = Inr (n1\<lparr>sharesReceived := sharesReceived n1 + 1\<rparr>, w1)"
proof -
  from first reg have f: "ReceiveShare_share P d1 msg (n, w) = Inr (n1, w1)"
    by (simp add: ReceiveShare_not_register)
  then obtain S where S: "FromString P d1 msg = Inr S" by (rule ReceiveShare_share_Inr)
  have S2: "FromString P d2 msg = Inr S" using S FromString_indep [OF col, of P d2 d1] by simp
  let ?n' = "n\<lparr>sharesReceived := sharesReceived n + 1,
                      processedShares := insert (shareId S) (processedShares n),
                      sharesForwarded := sharesForwarded n + 1\<rparr>"
  have r: "(n1, w1) = (if shareId S \<in> processedShares n then (n\<lparr>sharesReceived := sharesReceived n + 1\<rparr>, w)
          else GossipShareToPeers P S (?n', w))"
    using f ReceiveShare_share_decoded [OF S, of n w] by simp
  have mem: "shareId S \<in> processedShares n1"
  proof (cases "shareId S \<in> processedShares n")
    case True
    then show ?thesis using r by simp
  next
    case False
    then have "GossipShareToPeers P S (?n', w) = (n1, w1)" using r by simp
    from GossipShareToPeers_frame(2) [OF this] show ?thesis by simp
  qed
  have second: "ReceiveShare P d2 msg s2 (n1, w1) = Inr (n1\<lparr>sharesReceived := sharesReceived n1 + 1\<rparr>, w1)"
    using reg mem ReceiveShare_share_decoded [OF S2, of n1 w1] by (simp add: ReceiveShare_not_register)
  have fst: "(if shareId S \<in> processedShares n
            then n1 = n\<lparr>sharesReceived := sharesReceived n + 1\<rparr> \<and> w1 = w
            else sharesForwarded n1 = sharesForwarded n + 1 \<and>
                 processedShares n1 = insert (shareId S) (processedShares n) \<and>
                 (n1, w1) = GossipShareToPeers P S (?n', w))"
  proof (cases "shareId S \<in> processedShares n")
    case True
    then show ?thesis using r by simp
  next
    case False
    then have g: "GossipShareToPeers P S (?n', w) = (n1, w1)" using r by simp
    from GossipShareToPeers_frame(2,4) [OF g] g False show ?thesis by simp
  qed
  show ?thesis using S mem fst second by blast
qed



lemma uset_member_insert: "uset_member S (uset_insert S xs)"
  by (auto simp: uset_member_def uset_insert_def list_ex_iff Share_eq_def)

lemma ReceiveShare_sim_decoded:
  assumes "FromString P d msg = Inr S"
  shows "ReceiveShare_sim P d msg (n, w) =
     Inr (if uset_member S (m_processedShares n) then (n\<lparr>m_sharesReceived := m_sharesReceived n + 1\<rparr>, w)
          else GossipShareToPeers_sim P (S\<lparr>nodesVisited := insert (m_id n) (nodesVisited S)\<rparr>)
                 (n\<lparr>m_sharesReceived := m_sharesReceived n + 1,
                    m_processedShares := m_processedShares n @ [S],
                    m_sharesForwarded := m_sharesForwarded n + 1\<rparr>, w))"
  using assms by (simp add: ReceiveShare_sim_def Let_def uset_insert_def)

lemma ReceiveShare_sim_Inr:
  assumes "ReceiveShare_sim P d msg (n, w) = Inr (n1, w1)"
  obtains S where "FromString P d msg = Inr S"
  using assms by (auto simp: ReceiveShare_sim_def Let_def split: sum.splits)

lemma ReceiveShare_twice_single:
  assumes col: "3 \<le> colons msg"
      and first: "ReceiveShare_sim P d1 msg (n, w) = Inr (n1, w1)"
  shows "\<exists>S. FromString P d1 msg = Inr S \<and> uset_member S (m_processedShares n1) \<and>
           (if uset_member S (m_processedShares n)
            then n1 = n\<lparr>m_sharesReceived := m_sharesReceived n + 1\<rparr> \<and> w1 = w
            else m_sharesForwarded n1 = m_sharesForwarded n + 1 \<and>
                 m_processedShares n1 = m_processedShares n @ [S] \<and>
                 sent_sim w1 = sent_sim w @
                   map (\<lambda>p. (p, ToString P (S\<lparr>nodesVisited := insert (m_id n) (nodesVisited S)\<rparr>)))
                     (m_peers n)) \<and>
           ReceiveShare_sim P d2 msg (n1, w1) =
             Inr (n1\<lparr>m_sharesReceived := m_sharesReceived n1 + 1\<rparr>, w1)"
proof -
  from first obtain S where S: "FromString P d1 msg = Inr S" by (rule ReceiveShare_sim_Inr)
  have S2: "FromString P d2 msg = Inr S" using S FromString_indep [OF col, of P d2 d1] by simp
  let ?S' = "S\<lparr>nodesVisited := insert (m_id n) (nodesVisited S)\<rparr>"
  let ?n' = "n\<lparr>m_sharesReceived := m_sharesReceived n + 1,
                    m_processedShares := m_processedShares n @ [S],
                    m_sharesForwarded := m_sharesForwarded n + 1\<rparr>"
  have r: "(n1, w1) = (if uset_member S (m_processedShares n) then (n\<lparr>m_sharesReceived := m_sharesReceived n + 1\<rparr>, w)
          else GossipShareToPeers_sim P ?S' (?n', w))"
    using first ReceiveShare_sim_decoded [OF S, of n w] by simp
  have fst: "(if uset_member S (m_processedShares n)
            then n1 = n\<lparr>m_sharesReceived := m_sharesReceived n + 1\<rparr> \<and> w1 = w
            else m_sharesForwarded n1 = m_sharesForwarded n + 1 \<and>
                 m_processedShares n1 = m_processedShares n @ [S] \<and>
                 sent_sim w1 = sent_sim w @ map (\<lambda>p. (p, ToString P ?S')) (m_peers n))"
  proof (cases "uset_member S (m_processedShares n)")
    case True
    then show ?thesis using r by simp
  next
    case False
    then have g: "GossipShareToPeers_sim P ?S' (?n', w) = (n1, w1)" using r by simp
    from GossipShareToPeers_sim_frame(2,4,10) [OF g] False show ?thesis by simp
  qed
  have mem: "uset_member S (m_processedShares n1)"
  proof (cases "uset_member S (m_processedShares n)")
    case True
    then show ?thesis using r by simp
  next
    case False
    then have "m_processedShares n1 = m_processedShares n @ [S]" using fst by simp
    then show ?thesis by (simp add: uset_member_def Share_eq_def)
  qed
  have second: "ReceiveShare_sim P d2 msg (n1, w1) = Inr (n1\<lparr>m_sharesReceived := m_sharesReceived n1 + 1\<rparr>, w1)"
    using mem ReceiveShare_sim_decoded [OF S2, of n1 w1] by simp
  show ?thesis using S mem fst second by blast
qed

subsection \<open>Evaluating on the test values\<close>


lemmas node_simps =
  ReceiveShare_def ReceiveShare_share_def GossipShareToPeers_def Send_def ToString_def
  to_string.simps digit_char_def
  P2PNode_new_def AddPeer_def AddPeerSocket_def StartGeneratingShares_def
  GenerateAndGossipShare_def GenerateUniqueShareId_def ShareId_seed_def ScheduleNextShare_def
  Stop_def
  test_world_def test_node_def test_share0_def test_sends_def Let_def

lemmas node_sim_simps =
  ReceiveShare_sim_def GossipShareToPeers_sim_def m_onSendShare_def ToString_def
  to_string.simps digit_char_def P2PNode_sim_new_def AddPeer_sim_def
  StartGeneratingShares_sim_def GenerateAndGossipShare_sim_def new_share_sim_def
  ScheduleNextShare_sim_def test_world_sim_def test_node_sim_def test_share0_def
  uset_member_def uset_insert_def Share_eq_def Let_def

lemma colons_eval: "colons ''SHARE:1:7:0.5'' = 3"
  by (simp add: colons_def)

lemma first_split:
  "ReceiveShare test_platform test_share0 ''SHARE:1:7:0.5'' 9 (test_node, test_world) =
    Inr (test_node\<lparr>peersockets := [4 \<mapsto> 40], processedShares := {7}, sharesSent := 1, sharesReceived := 1,
                   sharesForwarded := 1\<rparr>,
         test_world\<lparr>sends := test_sends\<rparr>)"
  by (simp add: decode_simps node_simps fun_upd_twist)

lemma first_single:
  "ReceiveShare_sim test_platform test_share0 ''SHARE:1:7:0.5'' (test_node_sim, test_world_sim) =
    Inr (test_node_sim\<lparr>m_processedShares := [\<lparr>originNodeId = 1, shareId = 7, timestamp = ''0.5'', nodesVisited = {}\<rparr>],
           m_sharesSent := 2, m_sharesReceived := 1, m_sharesForwarded := 1\<rparr>,
         test_world_sim\<lparr>sent_sim := [(4, ''SHARE:1:7:0.5''), (5, ''SHARE:1:7:0.5'')]\<rparr>)"
  by (simp add: decode_simps node_sim_simps)


text \<open>
  C1.  A message with three colons that is no registration is delivered twice to a node,
  and the first delivery returns.  Then the message decodes to a share \<open>S\<close> whose key (the
  \<open>shareId\<close> in the split draft, the pair of origin and \<open>shareId\<close> under \<open>Share_eq\<close> in the
  single-file draft) is among the processed ones afterwards.  The first delivery forwards
  exactly when the key was not processed before: then the forwarded counter goes up by
  one, the key is inserted and the share is flooded to the peers; otherwise only the
  received counter moves.  The second delivery is dropped: it moves the received counter
  and nothing else, and sends nothing.  So the two deliveries count one forward or none.
\<close>

theorem ReceiveShare_twice:
  "(str_find msg ''REGISTER:'' 0 \<noteq> Some 0 \<and> 3 \<le> colons msg \<and>
    ReceiveShare P d1 msg s1 (n, w) = Inr (n1, w1) \<longrightarrow>
      (\<exists>S. FromString P d1 msg = Inr S \<and> shareId S \<in> processedShares n1 \<and>
           (if shareId S \<in> processedShares n
            then n1 = n\<lparr>sharesReceived := sharesReceived n + 1\<rparr> \<and> w1 = w
            else sharesForwarded n1 = sharesForwarded n + 1 \<and>
                 processedShares n1 = insert (shareId S) (processedShares n) \<and>
                 (n1, w1) = GossipShareToPeers P S
                   (n\<lparr>sharesReceived := sharesReceived n + 1,
                      processedShares := insert (shareId S) (processedShares n),
                      sharesForwarded := sharesForwarded n + 1\<rparr>, w)) \<and>
           ReceiveShare P d2 msg s2 (n1, w1) =
             Inr (n1\<lparr>sharesReceived := sharesReceived n1 + 1\<rparr>, w1))) \<and>
   (3 \<le> colons msg \<and> ReceiveShare_sim P d1 msg (m, v) = Inr (m1, v1) \<longrightarrow>
      (\<exists>S. FromString P d1 msg = Inr S \<and> uset_member S (m_processedShares m1) \<and>
           (if uset_member S (m_processedShares m)
            then m1 = m\<lparr>m_sharesReceived := m_sharesReceived m + 1\<rparr> \<and> v1 = v
            else m_sharesForwarded m1 = m_sharesForwarded m + 1 \<and>
                 m_processedShares m1 = m_processedShares m @ [S] \<and>
                 sent_sim v1 = sent_sim v @
                   map (\<lambda>p. (p, ToString P (S\<lparr>nodesVisited := insert (m_id m) (nodesVisited S)\<rparr>)))
                     (m_peers m)) \<and>
           ReceiveShare_sim P d2 msg (m1, v1) =
             Inr (m1\<lparr>m_sharesReceived := m_sharesReceived m1 + 1\<rparr>, v1)))"
  using ReceiveShare_twice_split [of msg P d1 s1 n w n1 w1 d2 s2]
    ReceiveShare_twice_single [of msg P d1 m v m1 v1 d2]
  by blast

theorem ReceiveShare_twice_witness:
  "str_find ''SHARE:1:7:0.5'' ''REGISTER:'' 0 \<noteq> Some 0 \<and> 3 \<le> colons ''SHARE:1:7:0.5'' \<and>
   ReceiveShare test_platform test_share0 ''SHARE:1:7:0.5'' 9 (test_node, test_world) =
     Inr (test_node\<lparr>peersockets := [4 \<mapsto> 40], processedShares := {7}, sharesSent := 1,
                     sharesReceived := 1, sharesForwarded := 1\<rparr>,
          test_world\<lparr>sends := test_sends\<rparr>) \<and>
   ReceiveShare test_platform test_share0 ''SHARE:1:7:0.5'' 9
     (test_node\<lparr>peersockets := [4 \<mapsto> 40], processedShares := {7}, sharesSent := 1,
                sharesReceived := 1, sharesForwarded := 1\<rparr>,
      test_world\<lparr>sends := test_sends\<rparr>) =
     Inr (test_node\<lparr>peersockets := [4 \<mapsto> 40], processedShares := {7}, sharesSent := 1,
                     sharesReceived := 2, sharesForwarded := 1\<rparr>,
          test_world\<lparr>sends := test_sends\<rparr>) \<and>
   ReceiveShare_sim test_platform test_share0 ''SHARE:1:7:0.5'' (test_node_sim, test_world_sim) =
     Inr (test_node_sim\<lparr>m_processedShares :=
              [\<lparr>originNodeId = 1, shareId = 7, timestamp = ''0.5'', nodesVisited = {}\<rparr>],
            m_sharesSent := 2, m_sharesReceived := 1, m_sharesForwarded := 1\<rparr>,
          test_world_sim\<lparr>sent_sim := [(4, ''SHARE:1:7:0.5''), (5, ''SHARE:1:7:0.5'')]\<rparr>) \<and>
   ReceiveShare_sim test_platform test_share0 ''SHARE:1:7:0.5''
     (test_node_sim\<lparr>m_processedShares :=
              [\<lparr>originNodeId = 1, shareId = 7, timestamp = ''0.5'', nodesVisited = {}\<rparr>],
            m_sharesSent := 2, m_sharesReceived := 1, m_sharesForwarded := 1\<rparr>,
      test_world_sim\<lparr>sent_sim := [(4, ''SHARE:1:7:0.5''), (5, ''SHARE:1:7:0.5'')]\<rparr>) =
     Inr (test_node_sim\<lparr>m_processedShares :=
              [\<lparr>originNodeId = 1, shareId = 7, timestamp = ''0.5'', nodesVisited = {}\<rparr>],
            m_sharesSent := 2, m_sharesReceived := 2, m_sharesForwarded := 1\<rparr>,
          test_world_sim\<lparr>sent_sim := [(4, ''SHARE:1:7:0.5''), (5, ''SHARE:1:7:0.5'')]\<rparr>)"
proof -
  have c: "3 \<le> colons ''SHARE:1:7:0.5''" by (simp add: colons_def)
  have r: "str_find ''SHARE:1:7:0.5'' ''REGISTER:'' 0 \<noteq> Some 0" by (simp add: str_find_def)
  show ?thesis
    using c r first_split first_single
      ReceiveShare_twice [where msg = "''SHARE:1:7:0.5''" and P = test_platform
        and ?d1.0 = test_share0 and ?d2.0 = test_share0 and ?s1.0 = 9 and ?s2.0 = 9
        and n = test_node and w = test_world and m = test_node_sim and v = test_world_sim
        and ?n1.0 = "test_node\<lparr>peersockets := [4 \<mapsto> 40], processedShares := {7},
                       sharesSent := 1, sharesReceived := 1, sharesForwarded := 1\<rparr>"
        and ?w1.0 = "test_world\<lparr>sends := test_sends\<rparr>"
        and ?m1.0 = "test_node_sim\<lparr>m_processedShares :=
              [\<lparr>originNodeId = 1, shareId = 7, timestamp = ''0.5'', nodesVisited = {}\<rparr>],
            m_sharesSent := 2, m_sharesReceived := 1, m_sharesForwarded := 1\<rparr>"
        and ?v1.0 = "test_world_sim\<lparr>sent_sim := [(4, ''SHARE:1:7:0.5''),
                       (5, ''SHARE:1:7:0.5'')]\<rparr>"]
    by auto
qed


text \<open>A node that created a share gets it back from its peers: both deliveries are
  dropped and nothing is forwarded, in either draft.\<close>

theorem ReceiveShare_own_share_echo:
  "map_sum id (\<lambda>nw. (sharesGenerated (fst nw), sharesReceived (fst nw), sharesForwarded (fst nw)))
     (run test_platform
        [Call_AddPeer 4, Call_StartGeneratingShares, Call_GenerateAndGossipShare 0,
         Call_ReceiveShare test_share0 ''SHARE:3:3000000:0'' 9,
         Call_ReceiveShare test_share0 ''SHARE:3:3000000:0'' 9]
        (P2PNode_new 3, test_world)) = Inr (1, 2, 0) \<and>
   map_sum id (\<lambda>nw. (m_sharesGenerated (fst nw), m_sharesReceived (fst nw), m_sharesForwarded (fst nw)))
     (run_sim test_platform
        [Sim_AddPeer 4, Sim_StartGeneratingShares, Sim_GenerateAndGossipShare 0,
         Sim_ReceiveShare test_share0 ''SHARE:3:0:0'',
         Sim_ReceiveShare test_share0 ''SHARE:3:0:0'']
        (P2PNode_sim_new 3, test_world_sim)) = Inr (1, 2, 0)"
  by (simp add: decode_simps ReceiveShare_def ReceiveShare_share_def GossipShareToPeers_def
       P2PNode_new_def AddPeer_def StartGeneratingShares_def GenerateAndGossipShare_def
       GenerateUniqueShareId_def ShareId_seed_def ScheduleNextShare_def test_world_def Let_def
       ReceiveShare_sim_def GossipShareToPeers_sim_def m_onSendShare_def P2PNode_sim_new_def
       AddPeer_sim_def StartGeneratingShares_sim_def GenerateAndGossipShare_sim_def new_share_sim_def
       ScheduleNextShare_sim_def test_world_sim_def uset_member_def uset_insert_def Share_eq_def)


subsection \<open>The forwarded and the received counter\<close>


lemma unat_plus1: "(x :: uint32) \<noteq> - 1 \<Longrightarrow> unat (x + 1) = Suc (unat x)"
  by (metis add.commute unatSuc add_eq_0_iff2 )

lemma unat_plus1_le: "unat ((x :: uint32) + 1) \<le> Suc (unat x)"
  by (metis Suc_eq_plus1 unat_add_lem unat_plus_simple word_le_nat_alt le_SucI nat_le_linear unat_1 le_Suc_eq)

lemma unat_max32: "unat (- 1 :: uint32) = 2 ^ 32 - 1"
  by (simp add: unsigned_minus_1_eq_mask mask_eq_exp_minus_1)

lemma ReceiveShare_counters:
  assumes "ReceiveShare P d msg s (n, w) = Inr (n', w')"
  shows "(sharesReceived n' = sharesReceived n \<and> sharesForwarded n' = sharesForwarded n) \<or>
         (sharesReceived n' = sharesReceived n + 1 \<and>
          (sharesForwarded n' = sharesForwarded n \<or> sharesForwarded n' = sharesForwarded n + 1))"
proof (cases "ReceiveShare_share P d msg (n, w) = Inr (n', w')")
  case False
  then show ?thesis using assms
    by (auto simp: ReceiveShare_def Let_def split: option.splits sum.splits if_splits)
next
  case True
  then have f: "ReceiveShare_share P d msg (n, w) = Inr (n', w')" .
  then obtain S where S: "FromString P d msg = Inr S" by (rule ReceiveShare_share_Inr)
  show ?thesis
  proof (cases "shareId S \<in> processedShares n")
    case True
    then show ?thesis using f ReceiveShare_share_decoded [OF S, of n w] by auto
  next
    case False
    then have "GossipShareToPeers P S
                 (n\<lparr>sharesReceived := sharesReceived n + 1,
                    processedShares := insert (shareId S) (processedShares n),
                    sharesForwarded := sharesForwarded n + 1\<rparr>, w) = (n', w')"
      using f ReceiveShare_share_decoded [OF S, of n w] by simp
    from GossipShareToPeers_frame(3,4) [OF this] show ?thesis by simp
  qed
qed

lemma GenerateAndGossipShare_counters:
  assumes "GenerateAndGossipShare P now (n, w) = (n', w')"
  shows "sharesReceived n' = sharesReceived n \<and> sharesForwarded n' = sharesForwarded n"
proof (cases "peers n = [] \<or> \<not> isrunning n")
  case True
  then show ?thesis using assms by (auto simp: GenerateAndGossipShare_def split: if_splits)
next
  case False
  then obtain n3 w3 where g: "GossipShareToPeers P
       \<lparr>originNodeId = id_node n, shareId = GenerateUniqueShareId P now n,
          timestamp = GetSeconds P now, nodesVisited = {}\<rparr>
       (n\<lparr>sharesGenerated := sharesGenerated n + 1,
          processedShares := insert (GenerateUniqueShareId P now n) (processedShares n)\<rparr>,
        w\<lparr>generating := generating w @ [(id_node n, GenerateUniqueShareId P now n)]\<rparr>) = (n3, w3)"
    by (metis surj_pair)
  then have "n' = n3" using assms False by (simp add: GenerateAndGossipShare_def Let_def)
  then show ?thesis using GossipShareToPeers_frame(3,4) [OF g] by simp
qed

lemma step_counters:
  assumes "step P c (n, w) = Inr (n', w')"
  shows "(sharesReceived n' = sharesReceived n \<and> sharesForwarded n' = sharesForwarded n) \<or>
         (is_ReceiveShare c \<and> sharesReceived n' = sharesReceived n + 1 \<and>
          (sharesForwarded n' = sharesForwarded n \<or> sharesForwarded n' = sharesForwarded n + 1))"
proof (cases c)
  case (Call_ReceiveShare d msg s)
  then show ?thesis using assms ReceiveShare_counters [of P d msg s n w n' w'] by auto
next
  case (Call_GenerateAndGossipShare now)
  then show ?thesis using assms GenerateAndGossipShare_counters [of P now n w n' w'] by auto
qed (use assms in \<open>auto simp: SetupServerSocket_def AddPeer_def AddPeerSocket_def
      StartGeneratingShares_def Stop_def Let_def split: option.splits\<close>)

lemma counters_step_le:
  fixes r f r' f' :: uint32
  assumes "unat f \<le> unat r" "unat r < 2 ^ 32 - 1"
    and "r' = r + 1" "f' = f \<or> f' = f + 1"
  shows "unat f' \<le> unat r' \<and> unat r' = Suc (unat r)"
proof -
  have "r \<noteq> - 1" using assms(2) by (auto simp: unat_max32)
  then have r: "unat r' = Suc (unat r)" using assms(3) by (simp add: unat_plus1)
  have "unat f' \<le> Suc (unat f)" using assms(4) unat_plus1_le [of f] by auto
  then show ?thesis using r assms(1) by simp
qed

lemma run_forwarded_le_received:
  "run P cs (n, w) = Inr (n', w') \<Longrightarrow> unat (sharesForwarded n) \<le> unat (sharesReceived n) \<Longrightarrow>
   unat (sharesReceived n) + length (filter is_ReceiveShare cs) < 2 ^ 32 \<Longrightarrow>
   unat (sharesForwarded n') \<le> unat (sharesReceived n')"
proof (induction cs arbitrary: n w)
  case Nil
  then show ?case by simp
next
  case (Cons c cs)
  from Cons.prems(1) obtain n1 w1 where s: "step P c (n, w) = Inr (n1, w1)"
    and r: "run P cs (n1, w1) = Inr (n', w')"
    by (auto split: sum.splits)
  from step_counters [OF s] show ?case
  proof
    assume a: "sharesReceived n1 = sharesReceived n \<and> sharesForwarded n1 = sharesForwarded n"
    have "unat (sharesReceived n1) + length (filter is_ReceiveShare cs) < 2 ^ 32"
      using a Cons.prems(3) by (auto split: if_splits)
    then show ?thesis using Cons.IH [OF r] a Cons.prems(2) by simp
  next
    assume a: "is_ReceiveShare c \<and> sharesReceived n1 = sharesReceived n + 1 \<and>
          (sharesForwarded n1 = sharesForwarded n \<or> sharesForwarded n1 = sharesForwarded n + 1)"
    then have lt: "unat (sharesReceived n) < 2 ^ 32 - 1" using Cons.prems(3) by simp
    from counters_step_le [OF Cons.prems(2) lt] a
    have b: "unat (sharesForwarded n1) \<le> unat (sharesReceived n1)"
      "unat (sharesReceived n1) = Suc (unat (sharesReceived n))" by auto
    have "unat (sharesReceived n1) + length (filter is_ReceiveShare cs) < 2 ^ 32"
      using b(2) a Cons.prems(3) by simp
    then show ?thesis using Cons.IH [OF r b(1)] by simp
  qed
qed



lemma ReceiveShare_sim_counters:
  assumes "ReceiveShare_sim P d msg (n, w) = Inr (n', w')"
  shows "m_sharesReceived n' = m_sharesReceived n + 1 \<and>
          (m_sharesForwarded n' = m_sharesForwarded n \<or>
           m_sharesForwarded n' = m_sharesForwarded n + 1)"
proof -
  from assms obtain S where S: "FromString P d msg = Inr S" by (rule ReceiveShare_sim_Inr)
  show ?thesis
  proof (cases "uset_member S (m_processedShares n)")
    case True
    then show ?thesis using assms ReceiveShare_sim_decoded [OF S, of n w] by auto
  next
    case False
    then have "GossipShareToPeers_sim P (S\<lparr>nodesVisited := insert (m_id n) (nodesVisited S)\<rparr>)
                 (n\<lparr>m_sharesReceived := m_sharesReceived n + 1,
                    m_processedShares := m_processedShares n @ [S],
                    m_sharesForwarded := m_sharesForwarded n + 1\<rparr>, w) = (n', w')"
      using assms ReceiveShare_sim_decoded [OF S, of n w] by simp
    from GossipShareToPeers_sim_frame(3,4) [OF this] show ?thesis by simp
  qed
qed

lemma GenerateAndGossipShare_sim_counters:
  assumes "GenerateAndGossipShare_sim P now (n, w) = (n', w')"
  shows "m_sharesReceived n' = m_sharesReceived n \<and> m_sharesForwarded n' = m_sharesForwarded n"
proof (cases "m_peers n = []")
  case True
  then show ?thesis using assms by (auto simp: GenerateAndGossipShare_sim_def)
next
  case False
  obtain n3 w3 where g: "GossipShareToPeers_sim P (new_share_sim P now n)
       (n\<lparr>m_sharesGenerated := m_sharesGenerated n + 1,
          m_processedShares := uset_insert (new_share_sim P now n) (m_processedShares n)\<rparr>,
        w\<lparr>generating_sim := generating_sim w @ [(m_id n, shareId (new_share_sim P now n))]\<rparr>) =
       (n3, w3)"
    by (metis surj_pair)
  then have "n' = n3" using assms False by (simp add: GenerateAndGossipShare_sim_def Let_def)
  then show ?thesis using GossipShareToPeers_sim_frame(3,4) [OF g] by simp
qed

lemma step_sim_counters:
  assumes "step_sim P c (n, w) = Inr (n', w')"
  shows "(m_sharesReceived n' = m_sharesReceived n \<and> m_sharesForwarded n' = m_sharesForwarded n) \<or>
         (is_ReceiveShare_sim c \<and> m_sharesReceived n' = m_sharesReceived n + 1 \<and>
          (m_sharesForwarded n' = m_sharesForwarded n \<or>
           m_sharesForwarded n' = m_sharesForwarded n + 1))"
proof (cases c)
  case (Sim_ReceiveShare d msg)
  then show ?thesis using assms ReceiveShare_sim_counters [of P d msg n w n' w'] by auto
next
  case (Sim_GenerateAndGossipShare now)
  then show ?thesis using assms GenerateAndGossipShare_sim_counters [of P now n w n' w'] by auto
qed (use assms in \<open>auto simp: AddPeer_sim_def StartGeneratingShares_sim_def\<close>)

lemma run_sim_forwarded_le_received:
  "run_sim P cs (n, w) = Inr (n', w') \<Longrightarrow>
   unat (m_sharesForwarded n) \<le> unat (m_sharesReceived n) \<Longrightarrow>
   unat (m_sharesReceived n) + length (filter is_ReceiveShare_sim cs) < 2 ^ 32 \<Longrightarrow>
   unat (m_sharesForwarded n') \<le> unat (m_sharesReceived n')"
proof (induction cs arbitrary: n w)
  case Nil
  then show ?case by simp
next
  case (Cons c cs)
  from Cons.prems(1) obtain n1 w1 where s: "step_sim P c (n, w) = Inr (n1, w1)"
    and r: "run_sim P cs (n1, w1) = Inr (n', w')"
    by (auto split: sum.splits)
  from step_sim_counters [OF s] show ?case
  proof
    assume a: "m_sharesReceived n1 = m_sharesReceived n \<and> m_sharesForwarded n1 = m_sharesForwarded n"
    have "unat (m_sharesReceived n1) + length (filter is_ReceiveShare_sim cs) < 2 ^ 32"
      using a Cons.prems(3) by (auto split: if_splits)
    then show ?thesis using Cons.IH [OF r] a Cons.prems(2) by simp
  next
    assume a: "is_ReceiveShare_sim c \<and> m_sharesReceived n1 = m_sharesReceived n + 1 \<and>
          (m_sharesForwarded n1 = m_sharesForwarded n \<or>
           m_sharesForwarded n1 = m_sharesForwarded n + 1)"
    then have lt: "unat (m_sharesReceived n) < 2 ^ 32 - 1" using Cons.prems(3) by simp
    from counters_step_le [OF Cons.prems(2) lt] a
    have b: "unat (m_sharesForwarded n1) \<le> unat (m_sharesReceived n1)"
      "unat (m_sharesReceived n1) = Suc (unat (m_sharesReceived n))" by auto
    have "unat (m_sharesReceived n1) + length (filter is_ReceiveShare_sim cs) < 2 ^ 32"
      using b(2) a Cons.prems(3) by simp
    then show ?thesis using Cons.IH [OF r b(1)] by simp
  qed
qed



lemma run_duplicates:
  assumes "FromString P d msg = Inr S" "str_find msg ''REGISTER:'' 0 \<noteq> Some 0"
  shows "shareId S \<in> processedShares n \<Longrightarrow>
    run P (replicate k (Call_ReceiveShare d msg s)) (n, w) =
      Inr (n\<lparr>sharesReceived := sharesReceived n + of_nat k\<rparr>, w)"
proof (induction k arbitrary: n)
  case 0
  then show ?case by simp
next
  case (Suc k)
  have "ReceiveShare P d msg s (n, w) = Inr (n\<lparr>sharesReceived := sharesReceived n + 1\<rparr>, w)"
    using assms Suc.prems ReceiveShare_share_decoded [OF assms(1), of n w]
    by (simp add: ReceiveShare_not_register)
  moreover have "shareId S \<in> processedShares (n\<lparr>sharesReceived := sharesReceived n + 1\<rparr>)"
    using Suc.prems by simp
  ultimately show ?case using Suc.IH [of "n\<lparr>sharesReceived := sharesReceived n + 1\<rparr>"]
    by (simp add: add.assoc)
qed

lemma run_sim_duplicates:
  assumes "FromString P d msg = Inr S"
  shows "uset_member S (m_processedShares n) \<Longrightarrow>
    run_sim P (replicate k (Sim_ReceiveShare d msg)) (n, w) =
      Inr (n\<lparr>m_sharesReceived := m_sharesReceived n + of_nat k\<rparr>, w)"
proof (induction k arbitrary: n)
  case 0
  then show ?case by simp
next
  case (Suc k)
  have "ReceiveShare_sim P d msg (n, w) = Inr (n\<lparr>m_sharesReceived := m_sharesReceived n + 1\<rparr>, w)"
    using assms Suc.prems ReceiveShare_sim_decoded [OF assms(1), of n w] by simp
  moreover have "uset_member S (m_processedShares (n\<lparr>m_sharesReceived := m_sharesReceived n + 1\<rparr>))"
    using Suc.prems by simp
  ultimately show ?case using Suc.IH [of "n\<lparr>m_sharesReceived := m_sharesReceived n + 1\<rparr>"]
    by (simp add: add.assoc)
qed

lemma decode_eval:
  "FromString test_platform test_share0 ''SHARE:1:7:0.5'' =
     Inr \<lparr>originNodeId = 1, shareId = 7, timestamp = ''0.5'', nodesVisited = {}\<rparr>"
  by (simp add: decode_simps test_share0_def)

lemma not_register_eval: "str_find ''SHARE:1:7:0.5'' ''REGISTER:'' 0 \<noteq> Some 0"
  by (simp add: str_find_def)

lemma run_split_eval:
  "run test_platform
     [Call_ReceiveShare test_share0 ''SHARE:1:7:0.5'' 9, Call_ReceiveShare test_share0 ''SHARE:1:7:0.5'' 9,
      Call_GenerateAndGossipShare 0]
     (test_node, test_world) =
   Inr (test_node\<lparr>peersockets := [4 \<mapsto> 40], processedShares := {7}, sharesSent := 1,
                     sharesReceived := 2, sharesForwarded := 1\<rparr>,
        test_world\<lparr>sends := test_sends\<rparr>)"
  by (simp add: decode_simps node_simps fun_upd_twist)

lemma run_single_eval:
  "run_sim test_platform
     [Sim_ReceiveShare test_share0 ''SHARE:1:7:0.5'', Sim_ReceiveShare test_share0 ''SHARE:1:7:0.5'']
     (test_node_sim, test_world_sim) =
   Inr (test_node_sim\<lparr>m_processedShares :=
              [\<lparr>originNodeId = 1, shareId = 7, timestamp = ''0.5'', nodesVisited = {}\<rparr>],
            m_sharesSent := 2, m_sharesReceived := 2, m_sharesForwarded := 1\<rparr>,
          test_world_sim\<lparr>sent_sim := [(4, ''SHARE:1:7:0.5''), (5, ''SHARE:1:7:0.5'')]\<rparr>)"
  by (simp add: decode_simps node_sim_simps)

text \<open>
  C10.  In a run that starts with the forwarded counter at most the received counter,
  and in which the received counter does not pass \<open>2 ^ 32 - 1\<close> (its value at the start
  plus the number of \<^verbatim>\<open>ReceiveShare\<close> calls of the run stays below \<open>2 ^ 32\<close>), the forwarded
  counter is at most the received counter at the end; every prefix of a run is a run,
  so this holds at every point.  Both drafts; the counters are \<^verbatim>\<open>uint32_t\<close>.
\<close>

theorem forwarded_le_received:
  "(sharesForwarded n \<le> sharesReceived n \<and>
    unat (sharesReceived n) + length (filter is_ReceiveShare cs) < 2 ^ 32 \<and>
    run P cs (n, w) = Inr (n', w') \<longrightarrow> sharesForwarded n' \<le> sharesReceived n') \<and>
   (m_sharesForwarded m \<le> m_sharesReceived m \<and>
    unat (m_sharesReceived m) + length (filter is_ReceiveShare_sim ds) < 2 ^ 32 \<and>
    run_sim P ds (m, v) = Inr (m', v') \<longrightarrow> m_sharesForwarded m' \<le> m_sharesReceived m')"
  using run_forwarded_le_received [of P cs n w n' w']
    run_sim_forwarded_le_received [of P ds m v m' v']
  by (simp add: word_le_nat_alt)

theorem forwarded_le_received_witness:
  "map_sum id (\<lambda>nw. (sharesForwarded (fst nw), sharesReceived (fst nw)))
     (run test_platform
       [Call_ReceiveShare test_share0 ''SHARE:1:7:0.5'' 9, Call_ReceiveShare test_share0 ''SHARE:1:7:0.5'' 9,
        Call_GenerateAndGossipShare 0]
       (test_node, test_world)) = Inr (1, 2) \<and> (1 :: uint32) \<le> 2 \<and>
   map_sum id (\<lambda>nw. (m_sharesForwarded (fst nw), m_sharesReceived (fst nw)))
     (run_sim test_platform
       [Sim_ReceiveShare test_share0 ''SHARE:1:7:0.5'', Sim_ReceiveShare test_share0 ''SHARE:1:7:0.5'']
       (test_node_sim, test_world_sim)) = Inr (1, 2)"
  using run_split_eval run_single_eval
    forwarded_le_received [where P = test_platform and n = test_node and w = test_world
      and cs = "[Call_ReceiveShare test_share0 ''SHARE:1:7:0.5'' 9,
                 Call_ReceiveShare test_share0 ''SHARE:1:7:0.5'' 9, Call_GenerateAndGossipShare 0]"
      and m = test_node_sim and v = test_world_sim
      and ds = "[Sim_ReceiveShare test_share0 ''SHARE:1:7:0.5'',
                 Sim_ReceiveShare test_share0 ''SHARE:1:7:0.5'']"]
  by (simp add: test_node_def test_node_sim_def P2PNode_new_def P2PNode_sim_new_def)


text \<open>Without the bound the comparison fails: a node that is sent the same share
  \<open>2 ^ 32\<close> times has forwarded it once, and its received counter is back at 0.\<close>

theorem received_wraps:
  "map_sum id (\<lambda>nw. (sharesForwarded (fst nw), sharesReceived (fst nw)))
     (run test_platform
        (replicate 4294967296 (Call_ReceiveShare test_share0 ''SHARE:1:7:0.5'' 9))
        (test_node, test_world)) = Inr (1, 0) \<and>
   map_sum id (\<lambda>nw. (m_sharesForwarded (fst nw), m_sharesReceived (fst nw)))
     (run_sim test_platform
        (replicate 4294967296 (Sim_ReceiveShare test_share0 ''SHARE:1:7:0.5''))
        (test_node_sim, test_world_sim)) = Inr (1, 0)"
proof -
  let ?c = "Call_ReceiveShare test_share0 ''SHARE:1:7:0.5'' (9::nat) :: (string, nat) call"
  let ?d = "Sim_ReceiveShare test_share0 ''SHARE:1:7:0.5'' :: string call_sim"
  have k: "(4294967296 :: nat) = Suc 4294967295" by simp
  have 1: "run test_platform (replicate 4294967296 ?c) (test_node, test_world) =
     run test_platform (replicate 4294967295 ?c)
       (test_node\<lparr>peersockets := [4 \<mapsto> 40], processedShares := {7}, sharesSent := 1,
                     sharesReceived := 1, sharesForwarded := 1\<rparr>,
          test_world\<lparr>sends := test_sends\<rparr>)"
    unfolding k replicate_Suc run.simps step.simps first_split by simp
  have 2: "run_sim test_platform (replicate 4294967296 ?d) (test_node_sim, test_world_sim) =
     run_sim test_platform (replicate 4294967295 ?d)
       (test_node_sim\<lparr>m_processedShares :=
              [\<lparr>originNodeId = 1, shareId = 7, timestamp = ''0.5'', nodesVisited = {}\<rparr>],
            m_sharesSent := 2, m_sharesReceived := 1, m_sharesForwarded := 1\<rparr>,
          test_world_sim\<lparr>sent_sim := [(4, ''SHARE:1:7:0.5''), (5, ''SHARE:1:7:0.5'')]\<rparr>)"
    unfolding k replicate_Suc run_sim.simps step_sim.simps first_single by simp
  show ?thesis
    unfolding 1 2
    by (simp add: run_duplicates [OF decode_eval not_register_eval]
        run_sim_duplicates [OF decode_eval] uset_member_def Share_eq_def)
qed


subsection \<open>The peer list\<close>

lemma AddPeer_idem: "AddPeer p (AddPeer p n) = AddPeer p n"
  by (simp add: AddPeer_def)

lemma AddPeer_distinct: "distinct (peers n) \<Longrightarrow> distinct (peers (AddPeer p n))"
  by (simp add: AddPeer_def)

lemma AddPeer_sim_idem: "AddPeer_sim p (AddPeer_sim p n) = AddPeer_sim p n"
  by (simp add: AddPeer_sim_def)

lemma AddPeer_sim_distinct: "distinct (m_peers n) \<Longrightarrow> distinct (m_peers (AddPeer_sim p n))"
  by (simp add: AddPeer_sim_def)

text \<open>
  C8.  \<^verbatim>\<open>AddPeer\<close> appends a peer only when it is absent (the four lemmas above), but the
  registration branch of \<^verbatim>\<open>ReceiveShare\<close> calls \<^verbatim>\<open>peers.push_back\<close> without looking:
  node 1, which has peer 5 already, lists it twice after \<^verbatim>\<open>REGISTER:5\<close>.
\<close>

theorem ReceiveShare_register_appends:
  "ReceiveShare P share0 ''REGISTER:5'' socket (AddPeer 5 (P2PNode_new 1), w) =
     Inr ((P2PNode_new 1)\<lparr>peers := [5, 5], peersockets := [5 \<mapsto> socket]\<rparr>, w)"
  by (simp add: ReceiveShare_def AddPeer_def P2PNode_new_def decode_simps)

subsection \<open>The identity of a share\<close>

lemma Share_eq_pair:
  "Share_eq a b \<longleftrightarrow> (originNodeId a, shareId a) = (originNodeId b, shareId b)"
  by (simp add: Share_eq_def)

lemma Share_hash_pair: "Share_eq a b \<Longrightarrow> Share_hash h a = Share_hash h b"
  by (simp add: Share_eq_def Share_hash_def)

text \<open>The single-file draft forwards a share unless one with the same origin and the
  same \<open>shareId\<close> is processed.\<close>

lemma ReceiveShare_sim_dedup_by_pair:
  assumes "FromString P d msg = Inr S"
  shows "(\<exists>n' w'. ReceiveShare_sim P d msg (n, w) = Inr (n', w') \<and>
            m_sharesForwarded n' = m_sharesForwarded n + 1) \<longleftrightarrow>
         (originNodeId S, shareId S) \<notin>
            (\<lambda>x. (originNodeId x, shareId x)) ` set (m_processedShares n)"
proof (cases "uset_member S (m_processedShares n)")
  case True
  then have "(originNodeId S, shareId S) \<in>
      (\<lambda>x. (originNodeId x, shareId x)) ` set (m_processedShares n)"
    by (auto simp: uset_member_def list_ex_iff Share_eq_def)
  then show ?thesis using True ReceiveShare_sim_decoded [OF assms, of n w] by simp
next
  case False
  then have notin: "(originNodeId S, shareId S) \<notin>
      (\<lambda>x. (originNodeId x, shareId x)) ` set (m_processedShares n)"
    by (auto simp: uset_member_def list_ex_iff Share_eq_def)
  obtain n' w' where r: "ReceiveShare_sim P d msg (n, w) = Inr (n', w')"
    using ReceiveShare_sim_decoded [OF assms, of n w] by (metis surj_pair)
  from ReceiveShare_twice_single [of msg] False
  have "m_sharesForwarded n' = m_sharesForwarded n + 1"
    using r ReceiveShare_sim_decoded [OF assms, of n w]
      GossipShareToPeers_sim_frame(4) [of P _ _ w n' w'] by auto
  then show ?thesis using notin r by auto
qed

text \<open>
  C2.  The split draft keeps the \<open>shareId\<close> alone in \<open>processedShares\<close>.  Node 3
  forwards share 7 of origin 1; share 7 of origin 2 is then dropped as a duplicate:
  it moves the received counter and nothing else.
\<close>

theorem ReceiveShare_same_shareId_other_origin:
  "ReceiveShare test_platform test_share0 ''SHARE:1:7:0.5'' (100::nat)
      (P2PNode_new 3, test_world) =
     Inr ((P2PNode_new 3)\<lparr>processedShares := {7}, sharesReceived := 1,
                            sharesForwarded := 1\<rparr>, test_world) \<and>
   ReceiveShare test_platform test_share0 ''SHARE:2:7:0.5'' (100::nat)
      ((P2PNode_new 3)\<lparr>processedShares := {7}, sharesReceived := 1,
                        sharesForwarded := 1\<rparr>, test_world) =
     Inr ((P2PNode_new 3)\<lparr>processedShares := {7}, sharesReceived := 2,
                            sharesForwarded := 1\<rparr>, test_world)"
  by (simp add: ReceiveShare_def ReceiveShare_share_def GossipShareToPeers_def
      P2PNode_new_def decode_simps)

subsection \<open>Decoding a malformed message\<close>

text \<open>
  C5.  \<^verbatim>\<open>FromString\<close> reads the fields only after it has found three colons; the test is
  there to return a default share for a text in which fields are missing.  It misses
  two cases.  The text \<^verbatim>\<open>SHARE:::\<close> has its three colons and no digit between them:
  \<^verbatim>\<open>std::stoul\<close> throws \<^verbatim>\<open>std::invalid_argument\<close>, nothing catches it, and
  \<^verbatim>\<open>ReceiveShare\<close> of either draft ends with the exception.  And the text \<^verbatim>\<open>SHARE:3:7\<close>,
  with its third colon missing, decodes to the local \<^verbatim>\<open>Share share;\<close> as its declaration
  left it: the members hold what they held, here 11, 22 and \<^verbatim>\<open>junk\<close>, not zero.
\<close>

theorem FromString_malformed_input:
  "FromString test_platform test_share0 ''SHARE:::'' = Inl invalid_argument \<and>
   ReceiveShare test_platform test_share0 ''SHARE:::'' (9 :: nat) (test_node, test_world) =
     Inl invalid_argument \<and>
   ReceiveShare_sim test_platform test_share0 ''SHARE:::'' (test_node_sim, test_world_sim) =
     Inl invalid_argument \<and>
   FromString test_platform
     \<lparr>originNodeId = 11, shareId = 22, timestamp = ''junk'', nodesVisited = {}\<rparr> ''SHARE:3:7'' =
     Inr \<lparr>originNodeId = 11, shareId = 22, timestamp = ''junk'', nodesVisited = {}\<rparr>"
  by (simp add: decode_simps ReceiveShare_def ReceiveShare_share_def ReceiveShare_sim_def)


subsection \<open>Flooding a share\<close>


lemma loop_trace:
  "GossipShareToPeers_loop P share ps (n, w) = (n', w') \<Longrightarrow>
   \<exists>tr. sends w' = sends w @ tr
     \<and> sharesSent n' = sharesSent n + of_nat (length (filter (\<lambda>e. 0 < returned e) tr))
     \<and> (\<forall>e \<in> set tr. to_peer e \<in> set ps \<and> peersockets n (to_peer e) = Some (handle e)
            \<and> bytes e = ToString P share)
     \<and> (\<forall>p. peersockets n' p =
            (if \<exists>e \<in> set tr. to_peer e = p \<and> returned e \<le> 0 then None else peersockets n p))
     \<and> (\<forall>p \<in> set ps. peersockets n p \<noteq> None \<longrightarrow> p \<in> to_peer ` set tr)
     \<and> (\<forall>i j. i < j \<and> j < length tr \<and> returned (tr ! i) \<le> 0 \<longrightarrow> to_peer (tr ! j) \<noteq> to_peer (tr ! i))
     \<and> (\<forall>k < length tr. returned (tr ! k) = sendResult w (length (sends w) + k))"
proof (induction ps arbitrary: n w)
  case Nil
  then show ?case by simp
next
  case (Cons p ps)
  show ?case
  proof (cases "peersockets n p")
    case None
    then have "GossipShareToPeers_loop P share ps (n, w) = (n', w')"
      using Cons.prems by simp
    from Cons.IH [OF this] obtain tr where tr: "sends w' = sends w @ tr"
      "sharesSent n' = sharesSent n + of_nat (length (filter (\<lambda>e. 0 < returned e) tr))"
      "\<forall>e \<in> set tr. to_peer e \<in> set ps \<and> peersockets n (to_peer e) = Some (handle e)
            \<and> bytes e = ToString P share"
      "\<forall>p. peersockets n' p =
            (if \<exists>e \<in> set tr. to_peer e = p \<and> returned e \<le> 0 then None else peersockets n p)"
      "\<forall>p \<in> set ps. peersockets n p \<noteq> None \<longrightarrow> p \<in> to_peer ` set tr"
      "\<forall>i j. i < j \<and> j < length tr \<and> returned (tr ! i) \<le> 0 \<longrightarrow> to_peer (tr ! j) \<noteq> to_peer (tr ! i)"
      "\<forall>k < length tr. returned (tr ! k) = sendResult w (length (sends w) + k)"
      by blast
    have "\<forall>e \<in> set tr. to_peer e \<in> set (p # ps) \<and> peersockets n (to_peer e) = Some (handle e)
            \<and> bytes e = ToString P share" using tr(3) by simp
    moreover have "\<forall>q \<in> set (p # ps). peersockets n q \<noteq> None \<longrightarrow> q \<in> to_peer ` set tr"
      using tr(5) None by simp
    ultimately show ?thesis using tr(1,2,4,6,7) by blast
  next
    case (Some s)
    let ?b = "sendResult w (length (sends w))"
    let ?e = "\<lparr>to_peer = p, handle = s, bytes = ToString P share, returned = ?b\<rparr>"
    let ?w1 = "w\<lparr>sends := sends w @ [?e]\<rparr>"
    let ?n1 = "if 0 < ?b then n\<lparr>sharesSent := sharesSent n + 1\<rparr>
               else n\<lparr>peersockets := (peersockets n)(p := None)\<rparr>"
    have rec: "GossipShareToPeers_loop P share ps (?n1, ?w1) = (n', w')"
      using Cons.prems Some by (simp add: Send_def Let_def split: if_splits)
    from Cons.IH [OF this] obtain tr where tr: "sends w' = sends ?w1 @ tr"
      "sharesSent n' = sharesSent ?n1 + of_nat (length (filter (\<lambda>e. 0 < returned e) tr))"
      "\<forall>e \<in> set tr. to_peer e \<in> set ps \<and> peersockets ?n1 (to_peer e) = Some (handle e)
            \<and> bytes e = ToString P share"
      "\<forall>q. peersockets n' q =
            (if \<exists>e \<in> set tr. to_peer e = q \<and> returned e \<le> 0 then None else peersockets ?n1 q)"
      "\<forall>q \<in> set ps. peersockets ?n1 q \<noteq> None \<longrightarrow> q \<in> to_peer ` set tr"
      "\<forall>i j. i < j \<and> j < length tr \<and> returned (tr ! i) \<le> 0 \<longrightarrow> to_peer (tr ! j) \<noteq> to_peer (tr ! i)"
      "\<forall>k < length tr. returned (tr ! k) = sendResult ?w1 (length (sends ?w1) + k)"
      by blast
    let ?tr = "?e # tr"
    have 1: "sends w' = sends w @ ?tr" using tr(1) by simp
    have 2: "sharesSent n' = sharesSent n + of_nat (length (filter (\<lambda>e. 0 < returned e) ?tr))"
      using tr(2) by simp
    have 3: "\<forall>e \<in> set ?tr. to_peer e \<in> set (p # ps) \<and> peersockets n (to_peer e) = Some (handle e)
            \<and> bytes e = ToString P share"
      using tr(3) Some by (auto split: if_splits)
    have 4: "\<forall>q. peersockets n' q =
            (if \<exists>e \<in> set ?tr. to_peer e = q \<and> returned e \<le> 0 then None else peersockets n q)"
      using tr(4) by (auto split: if_splits)
    have 5: "\<forall>q \<in> set (p # ps). peersockets n q \<noteq> None \<longrightarrow> q \<in> to_peer ` set ?tr"
    proof (intro ballI impI)
      fix q assume q: "q \<in> set (p # ps)" "peersockets n q \<noteq> None"
      show "q \<in> to_peer ` set ?tr"
      proof (cases "q = p")
        case True
        then show ?thesis by simp
      next
        case False
        then have "q \<in> set ps" "peersockets ?n1 q \<noteq> None" using q by auto
        then show ?thesis using tr(5) by auto
      qed
    qed
    have later: "\<not> 0 < ?b \<Longrightarrow> \<forall>e \<in> set tr. to_peer e \<noteq> p"
      using tr(3) by auto
    have 6: "\<forall>i j. i < j \<and> j < length ?tr \<and> returned (?tr ! i) \<le> 0 \<longrightarrow>
               to_peer (?tr ! j) \<noteq> to_peer (?tr ! i)"
    proof (intro allI impI)
      fix i j assume a: "i < j \<and> j < length ?tr \<and> returned (?tr ! i) \<le> 0"
      then obtain j' where j': "j = Suc j'" "j' < length tr" by (cases j) auto
      show "to_peer (?tr ! j) \<noteq> to_peer (?tr ! i)"
      proof (cases i)
        case 0
        then have "\<not> 0 < ?b" using a by simp
        from later [OF this] have "to_peer (tr ! j') \<noteq> p" using j'(2) by simp
        then show ?thesis using 0 j' by simp
      next
        case (Suc i')
        then show ?thesis using a j' tr(6) by auto
      qed
    qed
    have 7: "\<forall>k < length ?tr. returned (?tr ! k) = sendResult w (length (sends w) + k)"
    proof (intro allI impI)
      fix k assume "k < length ?tr"
      then show "returned (?tr ! k) = sendResult w (length (sends w) + k)"
        using tr(7) by (cases k) auto
    qed
    show ?thesis using 1 2 3 4 5 6 7 by blast
  qed
qed


lemma flood_eval:
  "GossipShareToPeers test_platform
     \<lparr>originNodeId = 1, shareId = 7, timestamp = ''0.5'', nodesVisited = {}\<rparr>
     (test_node, test_world) =
   (test_node\<lparr>peersockets := [4 \<mapsto> 40], sharesSent := 1\<rparr>, test_world\<lparr>sends := test_sends\<rparr>)"
  by (simp add: node_simps test_platform_def fun_upd_twist)

lemma flood_sim_eval:
  "GossipShareToPeers_sim test_platform
     \<lparr>originNodeId = 1, shareId = 7, timestamp = ''0.5'', nodesVisited = {}\<rparr>
     (test_node_sim, test_world_sim) =
   (test_node_sim\<lparr>m_sharesSent := 2\<rparr>,
    test_world_sim\<lparr>sent_sim := [(4, ''SHARE:1:7:0.5''), (5, ''SHARE:1:7:0.5'')]\<rparr>)"
  by (simp add: node_sim_simps test_platform_def)

text \<open>
  C9.  A flood of the split draft leaves the peer list as it is.  Its calls of
  \<^verbatim>\<open>Send\<close> are the list \<open>tr\<close>: each goes to a peer of the list over the handle the node
  held for it and carries the encoded share.  The sent counter goes up by the number of
  calls that returned a positive value, so by one for each send that succeeded and by
  nothing for one that failed.  A peer keeps its handle unless a send to it failed; then
  the handle is gone from \<open>peersockets\<close>.  After a failed send no later call of the flood
  goes to that peer, and every peer of the list that had a handle is sent to: the flood
  goes on through the remaining peers.  A flood of the single-file draft, whose nodes
  hold no handles and whose callback returns nothing, leaves the peer list as it is,
  calls the callback once for every peer of the list, in the order of the list, and
  counts every call: the sent counter goes up by the length of the list, whatever the
  sends inside the callback return.
\<close>

theorem GossipShareToPeers_failed_send:
  "(GossipShareToPeers P share (n, w) = (n', w') \<longrightarrow>
   peers n' = peers n \<and>
   (\<exists>tr. sends w' = sends w @ tr
     \<and> sharesSent n' = sharesSent n + of_nat (length (filter (\<lambda>e. 0 < returned e) tr))
     \<and> (\<forall>e \<in> set tr. to_peer e \<in> set (peers n) \<and> peersockets n (to_peer e) = Some (handle e)
            \<and> bytes e = ToString P share)
     \<and> (\<forall>p. peersockets n' p =
            (if \<exists>e \<in> set tr. to_peer e = p \<and> returned e \<le> 0 then None else peersockets n p))
     \<and> (\<forall>p \<in> set (peers n). peersockets n p \<noteq> None \<longrightarrow> p \<in> to_peer ` set tr)
     \<and> (\<forall>i j. i < j \<and> j < length tr \<and> returned (tr ! i) \<le> 0 \<longrightarrow>
            to_peer (tr ! j) \<noteq> to_peer (tr ! i))
     \<and> (\<forall>k < length tr. returned (tr ! k) = sendResult w (length (sends w) + k)))) \<and>
   (GossipShareToPeers_sim P share (m, v) = (m', v') \<longrightarrow>
      m_peers m' = m_peers m \<and>
      sent_sim v' = sent_sim v @ map (\<lambda>p. (p, ToString P share)) (m_peers m) \<and>
      m_sharesSent m' = m_sharesSent m + of_nat (length (m_peers m)) \<and>
      sendResult_sim v' = sendResult_sim v)"
proof -
  have single: "m_peers m' = m_peers m \<and>
      sent_sim v' = sent_sim v @ map (\<lambda>p. (p, ToString P share)) (m_peers m) \<and>
      m_sharesSent m' = m_sharesSent m + of_nat (length (m_peers m)) \<and>
      sendResult_sim v' = sendResult_sim v"
    if b: "GossipShareToPeers_sim P share (m, v) = (m', v')"
    using GossipShareToPeers_sim_frame(1,10,7,11) [OF b] by simp
  have split: "peers n' = peers n \<and>
   (\<exists>tr. sends w' = sends w @ tr
     \<and> sharesSent n' = sharesSent n + of_nat (length (filter (\<lambda>e. 0 < returned e) tr))
     \<and> (\<forall>e \<in> set tr. to_peer e \<in> set (peers n) \<and> peersockets n (to_peer e) = Some (handle e)
            \<and> bytes e = ToString P share)
     \<and> (\<forall>p. peersockets n' p =
            (if \<exists>e \<in> set tr. to_peer e = p \<and> returned e \<le> 0 then None else peersockets n p))
     \<and> (\<forall>p \<in> set (peers n). peersockets n p \<noteq> None \<longrightarrow> p \<in> to_peer ` set tr)
     \<and> (\<forall>i j. i < j \<and> j < length tr \<and> returned (tr ! i) \<le> 0 \<longrightarrow>
            to_peer (tr ! j) \<noteq> to_peer (tr ! i))
     \<and> (\<forall>k < length tr. returned (tr ! k) = sendResult w (length (sends w) + k)))"
    if a: "GossipShareToPeers P share (n, w) = (n', w')"
  proof -
    from a have l: "GossipShareToPeers_loop P share (peers n) (n, w) = (n', w')"
      by (simp add: GossipShareToPeers_def)
    show ?thesis using GossipShareToPeers_frame(1) [OF a] loop_trace [OF l] by simp
  qed
  show ?thesis using single split by blast
qed

theorem GossipShareToPeers_failed_send_witness:
  "GossipShareToPeers test_platform
     \<lparr>originNodeId = 1, shareId = 7, timestamp = ''0.5'', nodesVisited = {}\<rparr>
     (test_node, test_world) =
   (test_node\<lparr>peersockets := [4 \<mapsto> 40], sharesSent := 1\<rparr>, test_world\<lparr>sends := test_sends\<rparr>) \<and>
   peers (test_node\<lparr>peersockets := [4 \<mapsto> 40], sharesSent := 1\<rparr>) = [4, 5, 6] \<and>
   sharesSent (test_node\<lparr>peersockets := [4 \<mapsto> 40], sharesSent := 1\<rparr>) =
     sharesSent test_node + of_nat (length (filter (\<lambda>e. 0 < returned e) test_sends)) \<and>
   map returned test_sends = [13, - 1] \<and>
   peersockets (test_node\<lparr>peersockets := [4 \<mapsto> 40], sharesSent := 1\<rparr>) 5 = None \<and>
   GossipShareToPeers_sim test_platform
     \<lparr>originNodeId = 1, shareId = 7, timestamp = ''0.5'', nodesVisited = {}\<rparr>
     (test_node_sim, test_world_sim) =
   (test_node_sim\<lparr>m_sharesSent := 2\<rparr>,
    test_world_sim\<lparr>sent_sim := [(4, ''SHARE:1:7:0.5''), (5, ''SHARE:1:7:0.5'')]\<rparr>) \<and>
   m_sharesSent (test_node_sim\<lparr>m_sharesSent := 2\<rparr>) =
     m_sharesSent test_node_sim + of_nat (length (m_peers test_node_sim))"
  using flood_eval flood_sim_eval
    GossipShareToPeers_failed_send [where P = test_platform
      and share = "\<lparr>originNodeId = 1, shareId = 7, timestamp = ''0.5'', nodesVisited = {}\<rparr>"
      and n = test_node and w = test_world
      and n' = "test_node\<lparr>peersockets := [4 \<mapsto> 40], sharesSent := 1\<rparr>"
      and w' = "test_world\<lparr>sends := test_sends\<rparr>"
      and m = test_node_sim and v = test_world_sim
      and m' = "test_node_sim\<lparr>m_sharesSent := 2\<rparr>"
      and v' = "test_world_sim\<lparr>sent_sim := [(4, ''SHARE:1:7:0.5''), (5, ''SHARE:1:7:0.5'')]\<rparr>"]
  by (auto simp: test_node_def test_world_def test_sends_def P2PNode_new_def)

text \<open>In the single-file draft a send that fails is counted like one that succeeds:
  node 3 floods share 7 of origin 1 to its peers 4 and 5 in an outside where the send to
  peer 5, call number 1 of the callback, returns \<open>- 1\<close>, and its sent counter goes from 0
  to 2.\<close>

theorem GossipShareToPeers_sim_counts_failed_send:
  "sendResult_sim test_world_sim 1 = - 1 \<and>
   m_sharesSent test_node_sim = 0 \<and>
   GossipShareToPeers_sim test_platform
     \<lparr>originNodeId = 1, shareId = 7, timestamp = ''0.5'', nodesVisited = {}\<rparr>
     (test_node_sim, test_world_sim) =
   (test_node_sim\<lparr>m_sharesSent := 2\<rparr>,
    test_world_sim\<lparr>sent_sim := [(4, ''SHARE:1:7:0.5''), (5, ''SHARE:1:7:0.5'')]\<rparr>)"
  by (simp add: node_sim_simps test_platform_def)


subsection \<open>Stopping a node\<close>


lemma Stop_isrunning: "isrunning (fst (Stop nw)) = False"
  by (simp add: Stop_def Let_def split: prod.splits option.splits)

lemma Stop_sharesGenerated: "sharesGenerated (fst (Stop nw)) = sharesGenerated (fst nw)"
  by (simp add: Stop_def Let_def split: prod.splits option.splits)

lemma GenerateAndGossipShare_stopped:
  "\<not> isrunning n \<Longrightarrow>
   GenerateAndGossipShare P now (n, w) = (if peers n = [] then (n, ScheduleNextShare w) else (n, w))"
  by (simp add: GenerateAndGossipShare_def)

lemma ReceiveShare_generation:
  assumes "ReceiveShare P d msg s (n, w) = Inr (n', w')"
  shows "isrunning n' = isrunning n \<and> sharesGenerated n' = sharesGenerated n"
proof (cases "ReceiveShare_share P d msg (n, w) = Inr (n', w')")
  case False
  then show ?thesis using assms
    by (auto simp: ReceiveShare_def Let_def split: option.splits sum.splits if_splits)
next
  case True
  then obtain S where S: "FromString P d msg = Inr S" by (rule ReceiveShare_share_Inr)
  show ?thesis
  proof (cases "shareId S \<in> processedShares n")
    case True
    then show ?thesis using \<open>ReceiveShare_share P d msg (n, w) = Inr (n', w')\<close>
        ReceiveShare_share_decoded [OF S, of n w] by auto
  next
    case False
    then have "GossipShareToPeers P S
                 (n\<lparr>sharesReceived := sharesReceived n + 1,
                    processedShares := insert (shareId S) (processedShares n),
                    sharesForwarded := sharesForwarded n + 1\<rparr>, w) = (n', w')"
      using \<open>ReceiveShare_share P d msg (n, w) = Inr (n', w')\<close>
        ReceiveShare_share_decoded [OF S, of n w] by simp
    from GossipShareToPeers_frame(5,6) [OF this] show ?thesis by simp
  qed
qed

lemma step_stopped:
  assumes "step P c (n, w) = Inr (n', w')" "\<not> isrunning n" "c \<noteq> Call_StartGeneratingShares"
  shows "\<not> isrunning n' \<and> sharesGenerated n' = sharesGenerated n"
proof (cases c)
  case (Call_ReceiveShare d msg s)
  then show ?thesis using assms ReceiveShare_generation [of P d msg s n w n' w'] by auto
next
  case (Call_GenerateAndGossipShare now)
  then show ?thesis using assms GenerateAndGossipShare_stopped [of n P now w]
    by (auto split: if_splits)
qed (use assms in \<open>auto simp: SetupServerSocket_def AddPeer_def AddPeerSocket_def
      Stop_def Let_def split: option.splits if_splits\<close>)

lemma run_stopped:
  "run P cs (n, w) = Inr (n', w') \<Longrightarrow> \<not> isrunning n \<Longrightarrow>
   Call_StartGeneratingShares \<notin> set cs \<Longrightarrow>
   \<not> isrunning n' \<and> sharesGenerated n' = sharesGenerated n"
proof (induction cs arbitrary: n w)
  case Nil
  then show ?case by simp
next
  case (Cons c cs)
  from Cons.prems(1) obtain n1 w1 where s: "step P c (n, w) = Inr (n1, w1)"
    and r: "run P cs (n1, w1) = Inr (n', w')"
    by (auto split: sum.splits)
  have "c \<noteq> Call_StartGeneratingShares" using Cons.prems(3) by auto
  from step_stopped [OF s Cons.prems(2) this]
  have 1: "\<not> isrunning n1" "sharesGenerated n1 = sharesGenerated n" by auto
  have "Call_StartGeneratingShares \<notin> set cs" using Cons.prems(3) by auto
  from Cons.IH [OF r 1(1) this] show ?case using 1(2) by simp
qed

lemma stopped_run_eval:
  "run test_platform
     [Call_GenerateAndGossipShare 0, Call_ReceiveShare test_share0 ''SHARE:1:7:0.5'' 9]
     (Stop (test_node\<lparr>isrunning := True\<rparr>, test_world)) =
   Inr (test_node\<lparr>peersockets := Map.empty, processedShares := {7}, sharesReceived := 1,
                  sharesForwarded := 1\<rparr>,
        test_world\<lparr>closed_sockets := {40, 50}\<rparr>)"
  by (simp add: decode_simps node_simps) (auto simp: ran_def)

text \<open>
  C4.  After \<^verbatim>\<open>Stop\<close> the flag \<open>isrunning\<close> is false.  In every run that follows and does
  not call \<^verbatim>\<open>StartGeneratingShares\<close> again, the flag stays false and the generated counter
  keeps the value it had at the stop.  A generation event that fires then creates no
  share; it changes nothing at all when the node has a peer, and when the peer list is
  empty it schedules the next generation event and changes nothing else.
\<close>

theorem Stop_ends_generation:
  "\<not> isrunning (fst (Stop (n, w))) \<and>
   (Call_StartGeneratingShares \<notin> set cs \<and> run P cs (Stop (n, w)) = Inr (n', w') \<longrightarrow>
      \<not> isrunning n' \<and> sharesGenerated n' = sharesGenerated n \<and>
      GenerateAndGossipShare P now (n', w') =
        (if peers n' = [] then (n', ScheduleNextShare w') else (n', w')))"
proof -
  obtain n0 w0 where s: "Stop (n, w) = (n0, w0)" by (metis surj_pair)
  have 0: "\<not> isrunning n0" "sharesGenerated n0 = sharesGenerated n"
    using Stop_isrunning [of "(n, w)"] Stop_sharesGenerated [of "(n, w)"] s by auto
  show ?thesis
    using 0 s run_stopped [of P cs n0 w0 n' w'] GenerateAndGossipShare_stopped [of n' P now w']
    by auto
qed


theorem Stop_ends_generation_witness:
  "Call_StartGeneratingShares \<notin>
     set [Call_GenerateAndGossipShare 0, Call_ReceiveShare test_share0 ''SHARE:1:7:0.5'' (9::nat)] \<and>
   run test_platform
     [Call_GenerateAndGossipShare 0, Call_ReceiveShare test_share0 ''SHARE:1:7:0.5'' 9]
     (Stop (test_node\<lparr>isrunning := True\<rparr>, test_world)) =
   Inr (test_node\<lparr>peersockets := Map.empty, processedShares := {7}, sharesReceived := 1,
                  sharesForwarded := 1\<rparr>,
        test_world\<lparr>closed_sockets := {40, 50}\<rparr>) \<and>
   sharesGenerated (test_node\<lparr>peersockets := Map.empty, processedShares := {7},
                     sharesReceived := 1, sharesForwarded := 1\<rparr>) =
     sharesGenerated (test_node\<lparr>isrunning := True\<rparr>) \<and>
   GenerateAndGossipShare test_platform 0
     (test_node\<lparr>peersockets := Map.empty, processedShares := {7}, sharesReceived := 1,
                  sharesForwarded := 1\<rparr>,
      test_world\<lparr>closed_sockets := {40, 50}\<rparr>) =
     (test_node\<lparr>peersockets := Map.empty, processedShares := {7}, sharesReceived := 1,
                  sharesForwarded := 1\<rparr>,
      test_world\<lparr>closed_sockets := {40, 50}\<rparr>)"
  using stopped_run_eval
    Stop_ends_generation [where P = test_platform and n = "test_node\<lparr>isrunning := True\<rparr>"
      and w = test_world and now = 0
      and cs = "[Call_GenerateAndGossipShare 0, Call_ReceiveShare test_share0 ''SHARE:1:7:0.5'' 9]"
      and n' = "test_node\<lparr>peersockets := Map.empty, processedShares := {7}, sharesReceived := 1,
                  sharesForwarded := 1\<rparr>"
      and w' = "test_world\<lparr>closed_sockets := {40, 50}\<rparr>"]
  by (simp add: test_node_def P2PNode_new_def)

text \<open>The test for an empty peer list comes before the test of \<open>isrunning\<close>: a node
  stopped before it got a peer goes on scheduling generation events.  Node 3 is started
  and stopped, one event is scheduled; the event fires and a second one is scheduled.\<close>

theorem stopped_node_without_peers_reschedules:
  "map_sum id (\<lambda>nw. (isrunning (fst nw), sharesGenerated (fst nw), scheduled (snd nw)))
     (run test_platform [Call_StartGeneratingShares, Call_Stop]
        (P2PNode_new 3, test_world)) = Inr (False, 0, [3]) \<and>
   map_sum id (\<lambda>nw. (isrunning (fst nw), sharesGenerated (fst nw), scheduled (snd nw)))
     (run test_platform [Call_StartGeneratingShares, Call_Stop, Call_GenerateAndGossipShare 0]
        (P2PNode_new 3, test_world)) = Inr (False, 0, [3, 3])"
  by (simp add: node_simps)


subsection \<open>The ids of the shares a node creates\<close>

lemma smod_nonneg: "0 \<le> (k::int) \<Longrightarrow> k smod 1000 = k mod 1000"
  by (simp add: signed_modulo_int_def sgn_if)

lemma seed_value:
  assumes "0 \<le> sint now"
  shows "ShareId_seed i g now =
     word_of_int (uint i * 1000000 + uint g * 1000 + sint now mod 1000)"
  unfolding ShareId_seed_def smod_nonneg [OF assms]
  by (simp only: ucast_eq of_int_add of_int_mult of_int_numeral)

lemma uint32_bound: "uint (x :: uint32) < 4294967296"
  using uint_bounded [of x] by simp

lemma word64_of_int_inj:
  assumes "0 \<le> a" "a < 2 ^ 64" "0 \<le> b" "b < 2 ^ 64"
    and "(word_of_int a :: uint64) = word_of_int b"
  shows "a = b"
proof -
  have "take_bit 64 a = take_bit 64 b" using assms(5) by (simp add: word_of_int_eq_iff)
  then show ?thesis using assms(1-4) by (simp add: take_bit_int_eq_self)
qed

lemma word32_of_int_inj:
  assumes "0 \<le> a" "a < 2 ^ 32" "0 \<le> b" "b < 2 ^ 32"
    and "(word_of_int a :: uint32) = word_of_int b"
  shows "a = b"
proof -
  have "take_bit 32 a = take_bit 32 b" using assms(5) by (simp add: word_of_int_eq_iff)
  then show ?thesis using assms(1-4) by (simp add: take_bit_int_eq_self)
qed

lemma seed_term_bound:
  fixes a g r :: int
  assumes "0 \<le> a" "a < 4294967296" "0 \<le> g" "g < 4294967296" "0 \<le> r" "r < 1000"
  shows "0 \<le> a * 1000000 + g * 1000 + r" "a * 1000000 + g * 1000 + r < 2 ^ 64"
proof -
  show "0 \<le> a * 1000000 + g * 1000 + r" using assms by linarith
  have "a * 1000000 + g * 1000 + r < 18446744073709551616" using assms by linarith
  then show "a * 1000000 + g * 1000 + r < 2 ^ 64" by simp
qed

lemma seed_term_inj:
  fixes g1 g2 r1 r2 :: int
  assumes "g1 * 1000 + r1 = g2 * 1000 + r2" "0 \<le> r1" "r1 < 1000" "0 \<le> r2" "r2 < 1000"
  shows "g1 = g2"
  using assms by linarith

text \<open>The seed is computed in 64 bits and does not overflow, so on one node it tells
  the values of the generated counter apart.\<close>

lemma seed_inj:
  assumes t: "0 \<le> sint t1" "0 \<le> sint t2"
    and e: "ShareId_seed i g1 t1 = ShareId_seed i g2 t2"
  shows "g1 = g2"
proof -
  let ?a = "uint i"
  let ?g1 = "uint g1" and ?g2 = "uint g2"
  let ?r1 = "sint t1 mod 1000" and ?r2 = "sint t2 mod 1000"
  have r: "0 \<le> ?r1" "?r1 < 1000" "0 \<le> ?r2" "?r2 < 1000" by simp_all
  have a: "0 \<le> ?a" "?a < 4294967296" by (simp_all add: uint32_bound)
  have g1: "0 \<le> ?g1" "?g1 < 4294967296" by (simp_all add: uint32_bound)
  have g2: "0 \<le> ?g2" "?g2 < 4294967296" by (simp_all add: uint32_bound)
  have eq: "(word_of_int (?a * 1000000 + ?g1 * 1000 + ?r1) :: uint64) =
        word_of_int (?a * 1000000 + ?g2 * 1000 + ?r2)"
    using e unfolding seed_value [OF t(1)] seed_value [OF t(2)] by simp
  have "?a * 1000000 + ?g1 * 1000 + ?r1 = ?a * 1000000 + ?g2 * 1000 + ?r2"
    by (rule word64_of_int_inj [OF seed_term_bound [OF a g1 r(1,2)]
          seed_term_bound [OF a g2 r(3,4)] eq])
  then have "?g1 * 1000 + ?r1 = ?g2 * 1000 + ?r2" by simp
  then have "?g1 = ?g2" by (rule seed_term_inj [OF _ r])
  then show ?thesis by (rule word_uint_eqI)
qed

lemma counter_inj:
  assumes "a < 2 ^ 32" "b < 2 ^ 32" "(g :: uint32) + of_nat a = g + of_nat b"
  shows "a = b"
proof -
  have "(of_nat a :: uint32) = of_nat b" using assms(3) by simp
  moreover have "a \<in> {0..<2 ^ LENGTH(32)}" "b \<in> {0..<2 ^ LENGTH(32)}"
    using assms(1,2) by auto
  ultimately show ?thesis using inj_on_word_of_nat [where 'a = 32] by (auto dest: inj_onD)
qed

lemma seeds_distinct:
  assumes "length ts \<le> 2 ^ 32" "\<forall>t \<in> set ts. 0 \<le> sint t"
  shows "distinct (map (\<lambda>k. ShareId_seed i (g + of_nat k) (ts ! k)) [0..<length ts])"
proof -
  have "inj_on (\<lambda>k. ShareId_seed i (g + of_nat k) (ts ! k)) (set [0..<length ts])"
  proof (rule inj_onI)
    fix a b
    assume ab: "a \<in> set [0..<length ts]" "b \<in> set [0..<length ts]"
      and e: "ShareId_seed i (g + of_nat a) (ts ! a) = ShareId_seed i (g + of_nat b) (ts ! b)"
    have t: "0 \<le> sint (ts ! a)" "0 \<le> sint (ts ! b)" using ab assms(2) by simp_all
    have "g + of_nat a = g + of_nat b" by (rule seed_inj [OF t e])
    moreover have "a < 2 ^ 32" "b < 2 ^ 32" using ab assms(1) by simp_all
    ultimately show "a = b" by (rule counter_inj [rotated 2])
  qed
  then show ?thesis by (simp add: distinct_map)
qed

text \<open>Where \<^verbatim>\<open>std::hash\<close> is the identity the id is the seed cut to 32 bits, and the
  ids of \<open>4294967\<close> shares in a row are different: \<open>4294966 * 1000 + 999\<close> is below
  \<open>2 ^ 32\<close>.\<close>

lemma ucast_word_of_int: "(ucast (word_of_int x :: uint64) :: uint32) = word_of_int x"
  by (simp add: ucast_eq word_of_int_eq_iff uint_word_of_int_eq)

lemma seed_low_bits:
  assumes "0 \<le> sint now"
  shows "(ucast (ShareId_seed i g now) :: uint32) =
     i * 1000000 + g * 1000 + word_of_int (sint now mod 1000)"
proof -
  have "(ucast (ShareId_seed i g now) :: uint32) =
      word_of_int (uint i * 1000000 + uint g * 1000 + sint now mod 1000)"
    by (simp only: seed_value [OF assms] ucast_word_of_int)
  also have "\<dots> = i * 1000000 + g * 1000 + word_of_int (sint now mod 1000)"
    by (simp only: of_int_add of_int_mult of_int_numeral word_of_int_uint)
  finally show ?thesis .
qed

lemma low_ids_inj:
  fixes i g :: uint32 and a b :: nat and ra rb :: int
  assumes "a \<le> 4294966" "b \<le> 4294966" "0 \<le> ra" "ra < 1000" "0 \<le> rb" "rb < 1000"
    and e: "i * 1000000 + (g + of_nat a) * 1000 + word_of_int ra =
            i * 1000000 + (g + of_nat b) * 1000 + word_of_int rb"
  shows "a = b"
proof -
  have "(of_nat a :: uint32) * 1000 + word_of_int ra = of_nat b * 1000 + word_of_int rb"
    using e by (simp add: algebra_simps)
  then have "(word_of_int (int a * 1000 + ra) :: uint32) = word_of_int (int b * 1000 + rb)"
    by simp
  moreover have "0 \<le> int a * 1000 + ra" "int a * 1000 + ra < 2 ^ 32"
    "0 \<le> int b * 1000 + rb" "int b * 1000 + rb < 2 ^ 32"
    using assms(1-6) by simp_all
  ultimately have "int a * 1000 + ra = int b * 1000 + rb"
    by (rule word32_of_int_inj [rotated 4])
  then have "int a = int b" by (rule seed_term_inj [OF _ assms(3-6)])
  then show ?thesis by simp
qed

lemma low_ids_distinct:
  assumes h: "\<forall>x. (ucast (hasher P x) :: uint32) = ucast x"
    and l: "length ts \<le> 4294967" and t: "\<forall>t \<in> set ts. 0 \<le> sint t"
  shows "distinct (map (\<lambda>k. (ucast (hasher P (ShareId_seed i (g + of_nat k) (ts ! k))) :: uint32))
           [0..<length ts])"
proof -
  have "inj_on (\<lambda>k. (ucast (hasher P (ShareId_seed i (g + of_nat k) (ts ! k))) :: uint32))
      (set [0..<length ts])"
  proof (rule inj_onI)
    fix a b
    assume ab: "a \<in> set [0..<length ts]" "b \<in> set [0..<length ts]"
      and e: "(ucast (hasher P (ShareId_seed i (g + of_nat a) (ts ! a))) :: uint32) =
              ucast (hasher P (ShareId_seed i (g + of_nat b) (ts ! b)))"
    have ta: "0 \<le> sint (ts ! a)" and tb: "0 \<le> sint (ts ! b)" using ab t by simp_all
    have "i * 1000000 + (g + of_nat a) * 1000 + word_of_int (sint (ts ! a) mod 1000) =
          i * 1000000 + (g + of_nat b) * 1000 + (word_of_int (sint (ts ! b) mod 1000) :: uint32)"
      using e h seed_low_bits [OF ta, of i "g + of_nat a"] seed_low_bits [OF tb, of i "g + of_nat b"]
      by simp
    moreover have "a \<le> 4294966" "b \<le> 4294966" using ab l by simp_all
    moreover have "0 \<le> sint (ts ! a) mod 1000" "sint (ts ! a) mod 1000 < 1000"
      "0 \<le> sint (ts ! b) mod 1000" "sint (ts ! b) mod 1000 < 1000" by simp_all
    ultimately show "a = b" by (rule low_ids_inj [rotated 6])
  qed
  then show ?thesis by (simp add: distinct_map)
qed

lemma counter_ids_distinct:
  assumes "m \<le> 2 ^ 32"
  shows "distinct (map (\<lambda>i. (g :: uint32) + of_nat i) [0..<m])"
proof -
  have "inj_on (\<lambda>i. g + (of_nat i :: uint32)) (set [0..<m])"
  proof (rule inj_onI)
    fix i j assume a: "i \<in> set [0..<m]" "j \<in> set [0..<m]" "g + (of_nat i :: uint32) = g + of_nat j"
    have "i < 2 ^ 32" "j < 2 ^ 32" using a(1,2) assms by simp_all
    then show "i = j" using a(3) by (rule counter_inj)
  qed
  then show ?thesis by (simp add: distinct_map)
qed

text \<open>What one call, and then a run, adds to the log of the shares created.  First the
  split draft.\<close>

lemma ReceiveShare_log:
  assumes "ReceiveShare P d msg s (n, w) = Inr (n', w')"
  shows "generating w' = generating w \<and> id_node n' = id_node n \<and>
         sharesGenerated n' = sharesGenerated n"
proof (cases "ReceiveShare_share P d msg (n, w) = Inr (n', w')")
  case False
  then show ?thesis using assms
    by (auto simp: ReceiveShare_def Let_def split: option.splits sum.splits if_splits)
next
  case True
  then obtain S where S: "FromString P d msg = Inr S" by (rule ReceiveShare_share_Inr)
  show ?thesis
  proof (cases "shareId S \<in> processedShares n")
    case True
    then show ?thesis using \<open>ReceiveShare_share P d msg (n, w) = Inr (n', w')\<close>
        ReceiveShare_share_decoded [OF S, of n w] by auto
  next
    case False
    then have "GossipShareToPeers P S
                 (n\<lparr>sharesReceived := sharesReceived n + 1,
                    processedShares := insert (shareId S) (processedShares n),
                    sharesForwarded := sharesForwarded n + 1\<rparr>, w) = (n', w')"
      using \<open>ReceiveShare_share P d msg (n, w) = Inr (n', w')\<close>
        ReceiveShare_share_decoded [OF S, of n w] by simp
    from GossipShareToPeers_frame(5,7,13) [OF this] show ?thesis by simp
  qed
qed

lemma GenerateAndGossipShare_log:
  assumes "GenerateAndGossipShare P now (n, w) = (n', w')"
  shows "id_node n' = id_node n \<and> peers n' = peers n \<and> isrunning n' = isrunning n \<and>
     (if peers n \<noteq> [] \<and> isrunning n
      then sharesGenerated n' = sharesGenerated n + 1 \<and>
           generating w' = generating w @
             [(id_node n, ucast (hasher P (ShareId_seed (id_node n) (sharesGenerated n) now)))]
      else sharesGenerated n' = sharesGenerated n \<and> generating w' = generating w)"
proof (cases "peers n = [] \<or> \<not> isrunning n")
  case True
  then show ?thesis using assms
    by (auto simp: GenerateAndGossipShare_def ScheduleNextShare_def split: if_splits)
next
  case False
  let ?sid = "GenerateUniqueShareId P now n"
  obtain n3 w3 where g: "GossipShareToPeers P
       \<lparr>originNodeId = id_node n, shareId = ?sid,
          timestamp = GetSeconds P now, nodesVisited = {}\<rparr>
       (n\<lparr>sharesGenerated := sharesGenerated n + 1,
          processedShares := insert ?sid (processedShares n)\<rparr>,
        w\<lparr>generating := generating w @ [(id_node n, ?sid)]\<rparr>) = (n3, w3)"
    by (metis surj_pair)
  then have r: "n' = n3" "w' = ScheduleNextShare w3"
    using assms False by (simp_all add: GenerateAndGossipShare_def Let_def)
  have "generating w' = generating w3" using r(2) by (simp add: ScheduleNextShare_def)
  then show ?thesis
    using GossipShareToPeers_frame(1,5,6,7,13) [OF g] r(1) False
    by (simp add: GenerateUniqueShareId_def)
qed

lemma step_log:
  assumes "step P c (n, w) = Inr (n', w')"
  shows "id_node n' = id_node n \<and>
     ((sharesGenerated n' = sharesGenerated n \<and> generating w' = generating w) \<or>
      (\<exists>now. c = Call_GenerateAndGossipShare now \<and>
         sharesGenerated n' = sharesGenerated n + 1 \<and>
         generating w' = generating w @
           [(id_node n, ucast (hasher P (ShareId_seed (id_node n) (sharesGenerated n) now)))]))"
proof (cases c)
  case (Call_ReceiveShare d msg s)
  then show ?thesis using assms ReceiveShare_log [of P d msg s n w n' w'] by auto
next
  case (Call_GenerateAndGossipShare now)
  then show ?thesis using assms GenerateAndGossipShare_log [of P now n w n' w']
    by (auto split: if_splits)
qed (use assms in \<open>auto simp: SetupServerSocket_def AddPeer_def AddPeerSocket_def
      StartGeneratingShares_def ScheduleNextShare_def Stop_def Let_def
      split: option.splits if_splits\<close>)

lemma event_times_Cons: "subseq ts (event_times cs) \<Longrightarrow> subseq ts (event_times (c # cs))"
  by (cases c) auto

lemma run_log:
  "run P cs (n, w) = Inr (n', w') \<Longrightarrow>
   \<exists>ts. subseq ts (event_times cs) \<and> id_node n' = id_node n \<and>
        sharesGenerated n' = sharesGenerated n + of_nat (length ts) \<and>
        generating w' = generating w @
          map (\<lambda>k. (id_node n, ucast (hasher P
                 (ShareId_seed (id_node n) (sharesGenerated n + of_nat k) (ts ! k)))))
            [0..<length ts]"
proof (induction cs arbitrary: n w)
  case Nil
  then show ?case by (intro exI [of _ "[]"]) simp
next
  case (Cons c cs)
  from Cons.prems obtain n1 w1 where s: "step P c (n, w) = Inr (n1, w1)"
    and r: "run P cs (n1, w1) = Inr (n', w')"
    by (auto split: sum.splits)
  from Cons.IH [OF r] obtain ts where ts: "subseq ts (event_times cs)"
    "id_node n' = id_node n1"
    "sharesGenerated n' = sharesGenerated n1 + of_nat (length ts)"
    "generating w' = generating w1 @
          map (\<lambda>k. (id_node n1, ucast (hasher P
                 (ShareId_seed (id_node n1) (sharesGenerated n1 + of_nat k) (ts ! k)))))
            [0..<length ts]" by blast
  have sub: "subseq ts (event_times (c # cs))" using ts(1) by (rule event_times_Cons)
  from step_log [OF s] have i: "id_node n1 = id_node n" by simp
  from step_log [OF s] consider
    (same) "sharesGenerated n1 = sharesGenerated n" "generating w1 = generating w"
    | (created) now where "c = Call_GenerateAndGossipShare now"
        "sharesGenerated n1 = sharesGenerated n + 1"
        "generating w1 = generating w @
           [(id_node n, ucast (hasher P (ShareId_seed (id_node n) (sharesGenerated n) now)))]"
    by blast
  then show ?case
  proof cases
    case same
    then show ?thesis using ts sub i by (intro exI [of _ ts]) simp
  next
    case created
    let ?f = "\<lambda>k. (id_node n, ucast (hasher P
                 (ShareId_seed (id_node n) (sharesGenerated n + of_nat k) ((now # ts) ! k))))
              :: uint32 \<times> uint32"
    have 1: "subseq (now # ts) (event_times (c # cs))" using ts(1) created(1) by simp
    have 2: "sharesGenerated n' = sharesGenerated n + of_nat (length (now # ts))"
      using ts(3) created(2) by simp
    have "map ?f [0..<length (now # ts)] = ?f 0 # map (\<lambda>k. ?f (Suc k)) [0..<length ts]"
      by (simp add: map_upt_Suc del: upt_Suc)
    also have "\<dots> = (id_node n, ucast (hasher P (ShareId_seed (id_node n) (sharesGenerated n) now))) #
        map (\<lambda>k. (id_node n1, ucast (hasher P
                 (ShareId_seed (id_node n1) (sharesGenerated n1 + of_nat k) (ts ! k)))))
            [0..<length ts]"
      using i created(2) by (simp add: add.assoc)
    finally have 3: "generating w' = generating w @ map ?f [0..<length (now # ts)]"
      using ts(4) created(3) by simp
    show ?thesis using 1 2 3 ts(2) i by (intro exI [of _ "now # ts"]) simp
  qed
qed

lemma run_generations:
  assumes "peers n \<noteq> []" "isrunning n"
  shows "\<exists>n' w'. run P (map Call_GenerateAndGossipShare ts) (n, w) = Inr (n', w') \<and>
           generating w' = generating w @
             map (\<lambda>k. (id_node n, ucast (hasher P
                    (ShareId_seed (id_node n) (sharesGenerated n + of_nat k) (ts ! k)))))
               [0..<length ts]"
  using assms
proof (induction ts arbitrary: n w)
  case Nil
  then show ?case by simp
next
  case (Cons now ts)
  obtain n1 w1 where g: "GenerateAndGossipShare P now (n, w) = (n1, w1)" by (metis surj_pair)
  from GenerateAndGossipShare_log [OF g] Cons.prems
  have 1: "id_node n1 = id_node n" "peers n1 \<noteq> []" "isrunning n1"
    "sharesGenerated n1 = sharesGenerated n + 1"
    "generating w1 = generating w @
       [(id_node n, ucast (hasher P (ShareId_seed (id_node n) (sharesGenerated n) now)))]"
    by simp_all
  from Cons.IH [OF 1(2,3), of w1] obtain n' w' where
    r: "run P (map Call_GenerateAndGossipShare ts) (n1, w1) = Inr (n', w')"
    "generating w' = generating w1 @
       map (\<lambda>k. (id_node n1, ucast (hasher P
              (ShareId_seed (id_node n1) (sharesGenerated n1 + of_nat k) (ts ! k)))))
         [0..<length ts]" by blast
  let ?f = "\<lambda>k. (id_node n, ucast (hasher P
               (ShareId_seed (id_node n) (sharesGenerated n + of_nat k) ((now # ts) ! k))))
            :: uint32 \<times> uint32"
  have "map ?f [0..<length (now # ts)] = ?f 0 # map (\<lambda>k. ?f (Suc k)) [0..<length ts]"
    by (simp add: map_upt_Suc del: upt_Suc)
  also have "\<dots> = (id_node n, ucast (hasher P (ShareId_seed (id_node n) (sharesGenerated n) now))) #
      map (\<lambda>k. (id_node n1, ucast (hasher P
               (ShareId_seed (id_node n1) (sharesGenerated n1 + of_nat k) (ts ! k)))))
          [0..<length ts]"
    using 1(1,4) by (simp add: add.assoc)
  finally have "generating w' = generating w @ map ?f [0..<length (now # ts)]"
    using r(2) 1(5) by simp
  moreover have "run P (map Call_GenerateAndGossipShare (now # ts)) (n, w) = Inr (n', w')"
    using g r(1) by simp
  ultimately show ?case by blast
qed

text \<open>The single-file draft.\<close>

lemma ReceiveShare_sim_log:
  assumes "ReceiveShare_sim P d msg (n, w) = Inr (n', w')"
  shows "generating_sim w' = generating_sim w \<and> m_id n' = m_id n \<and>
         m_sharesGenerated n' = m_sharesGenerated n"
proof -
  from assms obtain S where S: "FromString P d msg = Inr S" by (rule ReceiveShare_sim_Inr)
  show ?thesis
  proof (cases "uset_member S (m_processedShares n)")
    case True
    then show ?thesis using assms ReceiveShare_sim_decoded [OF S, of n w] by auto
  next
    case False
    then have "GossipShareToPeers_sim P (S\<lparr>nodesVisited := insert (m_id n) (nodesVisited S)\<rparr>)
                 (n\<lparr>m_sharesReceived := m_sharesReceived n + 1,
                    m_processedShares := m_processedShares n @ [S],
                    m_sharesForwarded := m_sharesForwarded n + 1\<rparr>, w) = (n', w')"
      using assms ReceiveShare_sim_decoded [OF S, of n w] by simp
    from GossipShareToPeers_sim_frame(5,6,12) [OF this] show ?thesis by simp
  qed
qed

lemma GenerateAndGossipShare_sim_log:
  assumes "GenerateAndGossipShare_sim P now (n, w) = (n', w')"
  shows "m_id n' = m_id n \<and> m_peers n' = m_peers n \<and>
     (if m_peers n \<noteq> []
      then m_sharesGenerated n' = m_sharesGenerated n + 1 \<and>
           generating_sim w' = generating_sim w @ [(m_id n, m_sharesGenerated n)]
      else m_sharesGenerated n' = m_sharesGenerated n \<and> generating_sim w' = generating_sim w)"
proof (cases "m_peers n = []")
  case True
  then show ?thesis using assms
    by (auto simp: GenerateAndGossipShare_sim_def ScheduleNextShare_sim_def)
next
  case False
  obtain n3 w3 where g: "GossipShareToPeers_sim P (new_share_sim P now n)
       (n\<lparr>m_sharesGenerated := m_sharesGenerated n + 1,
          m_processedShares := uset_insert (new_share_sim P now n) (m_processedShares n)\<rparr>,
        w\<lparr>generating_sim := generating_sim w @ [(m_id n, shareId (new_share_sim P now n))]\<rparr>) =
       (n3, w3)"
    by (metis surj_pair)
  then have r: "n' = n3" "w' = ScheduleNextShare_sim w3"
    using assms False by (simp_all add: GenerateAndGossipShare_sim_def Let_def)
  have "generating_sim w' = generating_sim w3" using r(2) by (simp add: ScheduleNextShare_sim_def)
  then show ?thesis
    using GossipShareToPeers_sim_frame(1,5,6,12) [OF g] r(1) False
    by (simp add: new_share_sim_def)
qed

lemma step_sim_log:
  assumes "step_sim P c (n, w) = Inr (n', w')"
  shows "m_id n' = m_id n \<and>
     ((m_sharesGenerated n' = m_sharesGenerated n \<and> generating_sim w' = generating_sim w) \<or>
      (m_sharesGenerated n' = m_sharesGenerated n + 1 \<and>
       generating_sim w' = generating_sim w @ [(m_id n, m_sharesGenerated n)]))"
proof (cases c)
  case (Sim_ReceiveShare d msg)
  then show ?thesis using assms ReceiveShare_sim_log [of P d msg n w n' w'] by auto
next
  case (Sim_GenerateAndGossipShare now)
  then show ?thesis using assms GenerateAndGossipShare_sim_log [of P now n w n' w']
    by (auto split: if_splits)
qed (use assms in \<open>auto simp: AddPeer_sim_def StartGeneratingShares_sim_def
       ScheduleNextShare_sim_def split: if_splits\<close>)

lemma run_sim_log:
  "run_sim P cs (n, w) = Inr (n', w') \<Longrightarrow>
   \<exists>k. k \<le> length cs \<and> m_id n' = m_id n \<and>
       m_sharesGenerated n' = m_sharesGenerated n + of_nat k \<and>
       generating_sim w' = generating_sim w @
         map (\<lambda>i. (m_id n, m_sharesGenerated n + of_nat i)) [0..<k]"
proof (induction cs arbitrary: n w)
  case Nil
  then show ?case by (intro exI [of _ 0]) simp
next
  case (Cons c cs)
  from Cons.prems obtain n1 w1 where s: "step_sim P c (n, w) = Inr (n1, w1)"
    and r: "run_sim P cs (n1, w1) = Inr (n', w')"
    by (auto split: sum.splits)
  from Cons.IH [OF r] obtain k where k: "k \<le> length cs" "m_id n' = m_id n1"
    "m_sharesGenerated n' = m_sharesGenerated n1 + of_nat k"
    "generating_sim w' = generating_sim w1 @
       map (\<lambda>i. (m_id n1, m_sharesGenerated n1 + of_nat i)) [0..<k]" by blast
  from step_sim_log [OF s] have i: "m_id n1 = m_id n" by simp
  from step_sim_log [OF s] consider
    (same) "m_sharesGenerated n1 = m_sharesGenerated n" "generating_sim w1 = generating_sim w"
    | (created) "m_sharesGenerated n1 = m_sharesGenerated n + 1"
        "generating_sim w1 = generating_sim w @ [(m_id n, m_sharesGenerated n)]"
    by blast
  then show ?case
  proof cases
    case same
    then show ?thesis using k i by (intro exI [of _ k]) simp
  next
    case created
    let ?f = "\<lambda>i. (m_id n, m_sharesGenerated n + of_nat i) :: uint32 \<times> uint32"
    have "map ?f [0..<Suc k] = ?f 0 # map (\<lambda>i. ?f (Suc i)) [0..<k]"
      by (simp add: map_upt_Suc del: upt_Suc)
    also have "\<dots> = (m_id n, m_sharesGenerated n) #
        map (\<lambda>i. (m_id n1, m_sharesGenerated n1 + of_nat i)) [0..<k]"
      using i created(1) by (simp add: add.assoc)
    finally have "generating_sim w' = generating_sim w @ map ?f [0..<Suc k]"
      using k(4) created(2) by simp
    moreover have "m_sharesGenerated n' = m_sharesGenerated n + of_nat (Suc k)"
      using k(3) created(1) by simp
    ultimately show ?thesis using k(1,2) i by (intro exI [of _ "Suc k"]) simp
  qed
qed

lemma run_sim_generations:
  assumes "m_peers n \<noteq> []"
  shows "\<exists>n' w'. run_sim P (replicate k (Sim_GenerateAndGossipShare now)) (n, w) = Inr (n', w') \<and>
           generating_sim w' = generating_sim w @
             map (\<lambda>i. (m_id n, m_sharesGenerated n + of_nat i)) [0..<k]"
  using assms
proof (induction k arbitrary: n w)
  case 0
  then show ?case by simp
next
  case (Suc k)
  obtain n1 w1 where g: "GenerateAndGossipShare_sim P now (n, w) = (n1, w1)"
    by (metis surj_pair)
  from GenerateAndGossipShare_sim_log [OF g] Suc.prems
  have 1: "m_id n1 = m_id n" "m_peers n1 \<noteq> []"
    "m_sharesGenerated n1 = m_sharesGenerated n + 1"
    "generating_sim w1 = generating_sim w @ [(m_id n, m_sharesGenerated n)]"
    by simp_all
  from Suc.IH [OF 1(2), of w1] obtain n' w' where
    r: "run_sim P (replicate k (Sim_GenerateAndGossipShare now)) (n1, w1) = Inr (n', w')"
    "generating_sim w' = generating_sim w1 @
       map (\<lambda>i. (m_id n1, m_sharesGenerated n1 + of_nat i)) [0..<k]" by blast
  let ?f = "\<lambda>i. (m_id n, m_sharesGenerated n + of_nat i) :: uint32 \<times> uint32"
  have "map ?f [0..<Suc k] = ?f 0 # map (\<lambda>i. ?f (Suc i)) [0..<k]"
    by (simp add: map_upt_Suc del: upt_Suc)
  also have "\<dots> = (m_id n, m_sharesGenerated n) #
      map (\<lambda>i. (m_id n1, m_sharesGenerated n1 + of_nat i)) [0..<k]"
    using 1(1,3) by (simp add: add.assoc)
  finally have "generating_sim w' = generating_sim w @ map ?f [0..<Suc k]"
    using r(2) 1(4) by simp
  moreover have "run_sim P (replicate (Suc k) (Sim_GenerateAndGossipShare now)) (n, w) =
      Inr (n', w')"
    using g r(1) by simp
  ultimately show ?case by blast
qed


text \<open>The share whose id goes to the log is the share that is marked as processed and
  flooded.\<close>

lemma loop_bytes:
  assumes "GossipShareToPeers_loop P share ps (n, w) = (n', w')"
  shows "\<exists>tr. sends w' = sends w @ tr \<and> (\<forall>e \<in> set tr. bytes e = ToString P share)"
proof -
  from loop_trace [OF assms] obtain tr where "sends w' = sends w @ tr"
    "\<forall>e \<in> set tr. to_peer e \<in> set ps \<and> peersockets n (to_peer e) = Some (handle e)
            \<and> bytes e = ToString P share"
    by (elim exE conjE)
  then show ?thesis by (intro exI [of _ tr]) simp
qed

lemma GenerateAndGossipShare_share:
  assumes "peers n \<noteq> []" "isrunning n" "GenerateAndGossipShare P now (n, w) = (n', w')"
  shows "\<exists>S. originNodeId S = id_node n \<and>
           generating w' = generating w @ [(originNodeId S, shareId S)] \<and>
           shareId S \<in> processedShares n' \<and>
           (\<exists>tr. sends w' = sends w @ tr \<and> (\<forall>e \<in> set tr. bytes e = ToString P S))"
proof -
  let ?sid = "GenerateUniqueShareId P now n"
  let ?S = "\<lparr>originNodeId = id_node n, shareId = ?sid,
          timestamp = GetSeconds P now, nodesVisited = {}\<rparr>"
  let ?n2 = "n\<lparr>sharesGenerated := sharesGenerated n + 1,
          processedShares := insert ?sid (processedShares n)\<rparr>"
  let ?w1 = "w\<lparr>generating := generating w @ [(id_node n, ?sid)]\<rparr>"
  obtain n3 w3 where g: "GossipShareToPeers P ?S (?n2, ?w1) = (n3, w3)" by (metis surj_pair)
  then have r: "n' = n3" "w' = ScheduleNextShare w3"
    using assms by (simp_all add: GenerateAndGossipShare_def Let_def)
  have w: "generating w' = generating w3" "sends w' = sends w3"
    using r(2) by (simp_all add: ScheduleNextShare_def)
  from g have l: "GossipShareToPeers_loop P ?S (peers n) (?n2, ?w1) = (n3, w3)"
    by (simp add: GossipShareToPeers_def)
  from loop_bytes [OF l] obtain tr where tr: "sends w3 = sends ?w1 @ tr"
    "\<forall>e \<in> set tr. bytes e = ToString P ?S" by (elim exE conjE)
  have 1: "generating w' = generating w @ [(originNodeId ?S, shareId ?S)]"
    using GossipShareToPeers_frame(13) [OF g] w(1) by simp
  have 2: "shareId ?S \<in> processedShares n'"
    using GossipShareToPeers_frame(2) [OF g] r(1) by simp
  have 3: "sends w' = sends w @ tr" using tr(1) w(2) by simp
  show ?thesis by (rule exI [of _ ?S]) (use 1 2 3 tr(2) in simp)
qed

lemma GenerateAndGossipShare_sim_share:
  assumes "m_peers n \<noteq> []" "GenerateAndGossipShare_sim P now (n, w) = (n', w')"
  shows "\<exists>S. originNodeId S = m_id n \<and>
           generating_sim w' = generating_sim w @ [(originNodeId S, shareId S)] \<and>
           uset_member S (m_processedShares n') \<and>
           sent_sim w' = sent_sim w @ map (\<lambda>p. (p, ToString P S)) (m_peers n)"
proof -
  let ?S = "new_share_sim P now n"
  let ?n2 = "n\<lparr>m_sharesGenerated := m_sharesGenerated n + 1,
          m_processedShares := uset_insert ?S (m_processedShares n)\<rparr>"
  let ?w1 = "w\<lparr>generating_sim := generating_sim w @ [(m_id n, shareId ?S)]\<rparr>"
  obtain n3 w3 where g: "GossipShareToPeers_sim P ?S (?n2, ?w1) = (n3, w3)"
    by (metis surj_pair)
  then have r: "n' = n3" "w' = ScheduleNextShare_sim w3"
    using assms by (simp_all add: GenerateAndGossipShare_sim_def Let_def)
  have w: "generating_sim w' = generating_sim w3" "sent_sim w' = sent_sim w3"
    using r(2) by (simp_all add: ScheduleNextShare_sim_def)
  have 0: "originNodeId ?S = m_id n" by (simp add: new_share_sim_def)
  have 1: "generating_sim w' = generating_sim w @ [(originNodeId ?S, shareId ?S)]"
    using GossipShareToPeers_sim_frame(12) [OF g] w(1) 0 by simp
  have 2: "uset_member ?S (m_processedShares n')"
    using GossipShareToPeers_sim_frame(2) [OF g] r(1) by (simp add: uset_member_insert)
  have 3: "sent_sim w' = sent_sim w @ map (\<lambda>p. (p, ToString P ?S)) (m_peers n)"
    using GossipShareToPeers_sim_frame(10) [OF g] w(2) by simp
  show ?thesis by (rule exI [of _ ?S]) (use 0 1 2 3 in simp)
qed

lemma created_eval:
  "run_sim test_platform [Sim_GenerateAndGossipShare 0, Sim_GenerateAndGossipShare 0]
     (test_node_sim, test_world_sim) =
   Inr (test_node_sim\<lparr>m_processedShares :=
            [\<lparr>originNodeId = 3, shareId = 0, timestamp = ''0'', nodesVisited = {3}\<rparr>,
             \<lparr>originNodeId = 3, shareId = 1, timestamp = ''0'', nodesVisited = {3}\<rparr>],
          m_sharesSent := 4, m_sharesGenerated := 2\<rparr>,
        test_world_sim\<lparr>sent_sim := [(4, ''SHARE:3:0:0''), (5, ''SHARE:3:0:0''),
                                     (4, ''SHARE:3:1:0''), (5, ''SHARE:3:1:0'')],
          scheduled_sim := [3, 3], generating_sim := [(3, 0), (3, 1)]\<rparr>)"
  by (simp add: node_sim_simps test_platform_def)

lemma created_split_eval:
  "run test_platform [Call_GenerateAndGossipShare 0, Call_GenerateAndGossipShare 5]
     (test_node\<lparr>isrunning := True\<rparr>, test_world) =
   Inr (test_node\<lparr>isrunning := True, peersockets := [4 \<mapsto> 40],
                  processedShares := {3001005, 3000000}, sharesSent := 2,
                  sharesGenerated := 2\<rparr>,
        test_world\<lparr>sends :=
            [\<lparr>to_peer = 4, handle = 40, bytes = ''SHARE:3:3000000:0'', returned = 13\<rparr>,
             \<lparr>to_peer = 5, handle = 50, bytes = ''SHARE:3:3000000:0'', returned = - 1\<rparr>,
             \<lparr>to_peer = 4, handle = 40, bytes = ''SHARE:3:3001005:5'', returned = 13\<rparr>],
          scheduled := [3, 3], generating := [(3, 3000000), (3, 3001005)]\<rparr>)"
  by (simp add: node_simps test_platform_def fun_upd_twist)

lemma created_one_eval:
  "GenerateAndGossipShare_sim test_platform 0 (test_node_sim, test_world_sim) =
   (test_node_sim\<lparr>m_processedShares :=
        [\<lparr>originNodeId = 3, shareId = 0, timestamp = ''0'', nodesVisited = {3}\<rparr>],
      m_sharesSent := 2, m_sharesGenerated := 1\<rparr>,
    test_world_sim\<lparr>sent_sim := [(4, ''SHARE:3:0:0''), (5, ''SHARE:3:0:0'')],
      scheduled_sim := [3], generating_sim := [(3, 0)]\<rparr>)"
  by (simp add: node_sim_simps test_platform_def)

lemma created_one_split_eval:
  "GenerateAndGossipShare test_platform 0 (test_node\<lparr>isrunning := True\<rparr>, test_world) =
   (test_node\<lparr>isrunning := True, peersockets := [4 \<mapsto> 40], processedShares := {3000000},
              sharesSent := 1, sharesGenerated := 1\<rparr>,
    test_world\<lparr>sends :=
        [\<lparr>to_peer = 4, handle = 40, bytes = ''SHARE:3:3000000:0'', returned = 13\<rparr>,
         \<lparr>to_peer = 5, handle = 50, bytes = ''SHARE:3:3000000:0'', returned = - 1\<rparr>],
      scheduled := [3], generating := [(3, 3000000)]\<rparr>)"
  by (simp add: node_simps test_platform_def fun_upd_twist)

text \<open>
  C3.  A node writes a line to the log for every share it creates, with its own id and
  the \<open>shareId\<close> of the share; the share whose id is logged carries the id of the node as
  origin and is the one that is marked as processed and flooded.  Single-file draft:
  the lines a run adds carry the id of the node and the values of the generated
  counter, one after the other from its value at the start; when the run creates at
  most \<open>2 ^ 32\<close> shares, their \<open>shareId\<close>s are pairwise different.  Split draft, in a run
  whose generation events fire at time steps that are not negative: the lines carry the
  id of the node and the low 32 bits of \<^verbatim>\<open>std::hash\<close> of the seeds, the seed of share
  number \<open>k\<close> being computed from the generated counter \<open>k\<close> steps on and from the time step
  \<open>ts ! k\<close> of the event that creates it; the seeds of at most \<open>2 ^ 32\<close> shares are pairwise
  different; and where the low 32 bits of \<^verbatim>\<open>std::hash\<close> of a number are those of the
  number, the \<open>shareId\<close>s of at most \<open>4294967\<close> shares are pairwise different.
\<close>

theorem created_ids_unique:
  "(m_peers m \<noteq> [] \<and> GenerateAndGossipShare_sim P now (m, v) = (m1, v1) \<longrightarrow>
      (\<exists>S. originNodeId S = m_id m \<and>
         generating_sim v1 = generating_sim v @ [(originNodeId S, shareId S)] \<and>
         uset_member S (m_processedShares m1) \<and>
         sent_sim v1 = sent_sim v @ map (\<lambda>p. (p, ToString P S)) (m_peers m))) \<and>
   (run_sim P ds (m, v) = Inr (m', v') \<longrightarrow>
      (\<exists>k. k \<le> length ds \<and>
         generating_sim v' = generating_sim v @
           map (\<lambda>i. (m_id m, m_sharesGenerated m + of_nat i)) [0..<k] \<and>
         (k \<le> 2 ^ 32 \<longrightarrow>
            distinct (map snd (drop (length (generating_sim v)) (generating_sim v')))))) \<and>
   (peers n \<noteq> [] \<and> isrunning n \<and> GenerateAndGossipShare P now (n, w) = (n1, w1) \<longrightarrow>
      (\<exists>S. originNodeId S = id_node n \<and>
         generating w1 = generating w @ [(originNodeId S, shareId S)] \<and>
         shareId S \<in> processedShares n1 \<and>
         (\<exists>tr. sends w1 = sends w @ tr \<and> (\<forall>e \<in> set tr. bytes e = ToString P S)))) \<and>
   (run P cs (n, w) = Inr (n', w') \<and> (\<forall>t \<in> set (event_times cs). 0 \<le> sint t) \<longrightarrow>
      (\<exists>ts. subseq ts (event_times cs) \<and>
         generating w' = generating w @
           map (\<lambda>k. (id_node n, ucast (hasher P
                  (ShareId_seed (id_node n) (sharesGenerated n + of_nat k) (ts ! k)))))
             [0..<length ts] \<and>
         (length ts \<le> 2 ^ 32 \<longrightarrow>
            distinct (map (\<lambda>k. ShareId_seed (id_node n) (sharesGenerated n + of_nat k) (ts ! k))
                        [0..<length ts])) \<and>
         ((\<forall>x. (ucast (hasher P x) :: uint32) = ucast x) \<and> length ts \<le> 4294967 \<longrightarrow>
            distinct (map snd (drop (length (generating w)) (generating w'))))))"
proof -
  have A: "\<exists>k. k \<le> length ds \<and>
         generating_sim v' = generating_sim v @
           map (\<lambda>i. (m_id m, m_sharesGenerated m + of_nat i)) [0..<k] \<and>
         (k \<le> 2 ^ 32 \<longrightarrow>
            distinct (map snd (drop (length (generating_sim v)) (generating_sim v'))))"
    if r: "run_sim P ds (m, v) = Inr (m', v')"
  proof -
    from run_sim_log [OF r] obtain k where k: "k \<le> length ds"
      "generating_sim v' = generating_sim v @
         map (\<lambda>i. (m_id m, m_sharesGenerated m + of_nat i)) [0..<k]" by blast
    have "map snd (drop (length (generating_sim v)) (generating_sim v')) =
        map (\<lambda>i. m_sharesGenerated m + of_nat i) [0..<k]"
      unfolding k(2) by (simp add: comp_def)
    then have "k \<le> 2 ^ 32 \<longrightarrow>
        distinct (map snd (drop (length (generating_sim v)) (generating_sim v')))"
      using counter_ids_distinct [of k "m_sharesGenerated m"] by simp
    then show ?thesis using k by blast
  qed
  have B: "\<exists>ts. subseq ts (event_times cs) \<and>
         generating w' = generating w @
           map (\<lambda>k. (id_node n, ucast (hasher P
                  (ShareId_seed (id_node n) (sharesGenerated n + of_nat k) (ts ! k)))))
             [0..<length ts] \<and>
         (length ts \<le> 2 ^ 32 \<longrightarrow>
            distinct (map (\<lambda>k. ShareId_seed (id_node n) (sharesGenerated n + of_nat k) (ts ! k))
                        [0..<length ts])) \<and>
         ((\<forall>x. (ucast (hasher P x) :: uint32) = ucast x) \<and> length ts \<le> 4294967 \<longrightarrow>
            distinct (map snd (drop (length (generating w)) (generating w'))))"
    if r: "run P cs (n, w) = Inr (n', w')" and t: "\<forall>t \<in> set (event_times cs). 0 \<le> sint t"
  proof -
    from run_log [OF r] obtain ts where ts: "subseq ts (event_times cs)"
      "generating w' = generating w @
           map (\<lambda>k. (id_node n, ucast (hasher P
                  (ShareId_seed (id_node n) (sharesGenerated n + of_nat k) (ts ! k)))))
             [0..<length ts]" by blast
    have "set ts \<subseteq> set (event_times cs)" using list_emb_set [OF ts(1)] by blast
    then have nonneg: "\<forall>t \<in> set ts. 0 \<le> sint t" using t by blast
    have 1: "length ts \<le> 2 ^ 32 \<longrightarrow>
        distinct (map (\<lambda>k. ShareId_seed (id_node n) (sharesGenerated n + of_nat k) (ts ! k))
                    [0..<length ts])"
      using seeds_distinct [OF _ nonneg] by blast
    have "map snd (drop (length (generating w)) (generating w')) =
        map (\<lambda>k. ucast (hasher P
               (ShareId_seed (id_node n) (sharesGenerated n + of_nat k) (ts ! k))))
          [0..<length ts]"
      unfolding ts(2) by (simp add: comp_def)
    then have 2: "(\<forall>x. (ucast (hasher P x) :: uint32) = ucast x) \<and> length ts \<le> 4294967 \<longrightarrow>
        distinct (map snd (drop (length (generating w)) (generating w')))"
      using low_ids_distinct [OF _ _ nonneg, of P "id_node n" "sharesGenerated n"] by simp
    show ?thesis using ts 1 2 by blast
  qed
  show ?thesis
    using A B GenerateAndGossipShare_sim_share [of m P now v m1 v1]
      GenerateAndGossipShare_share [of n P now w n1 w1]
    by blast
qed

theorem created_ids_unique_witness:
  "m_peers test_node_sim \<noteq> [] \<and>
   GenerateAndGossipShare_sim test_platform 0 (test_node_sim, test_world_sim) =
   (test_node_sim\<lparr>m_processedShares :=
        [\<lparr>originNodeId = 3, shareId = 0, timestamp = ''0'', nodesVisited = {3}\<rparr>],
      m_sharesSent := 2, m_sharesGenerated := 1\<rparr>,
    test_world_sim\<lparr>sent_sim := [(4, ''SHARE:3:0:0''), (5, ''SHARE:3:0:0'')],
      scheduled_sim := [3], generating_sim := [(3, 0)]\<rparr>) \<and>
   run_sim test_platform [Sim_GenerateAndGossipShare 0, Sim_GenerateAndGossipShare 0]
     (test_node_sim, test_world_sim) =
   Inr (test_node_sim\<lparr>m_processedShares :=
            [\<lparr>originNodeId = 3, shareId = 0, timestamp = ''0'', nodesVisited = {3}\<rparr>,
             \<lparr>originNodeId = 3, shareId = 1, timestamp = ''0'', nodesVisited = {3}\<rparr>],
          m_sharesSent := 4, m_sharesGenerated := 2\<rparr>,
        test_world_sim\<lparr>sent_sim := [(4, ''SHARE:3:0:0''), (5, ''SHARE:3:0:0''),
                                     (4, ''SHARE:3:1:0''), (5, ''SHARE:3:1:0'')],
          scheduled_sim := [3, 3], generating_sim := [(3, 0), (3, 1)]\<rparr>) \<and>
   distinct (map snd [(3 :: uint32, 0 :: uint32), (3, 1)]) \<and>
   peers (test_node\<lparr>isrunning := True\<rparr>) \<noteq> [] \<and> isrunning (test_node\<lparr>isrunning := True\<rparr>) \<and>
   GenerateAndGossipShare test_platform 0 (test_node\<lparr>isrunning := True\<rparr>, test_world) =
   (test_node\<lparr>isrunning := True, peersockets := [4 \<mapsto> 40], processedShares := {3000000},
              sharesSent := 1, sharesGenerated := 1\<rparr>,
    test_world\<lparr>sends :=
        [\<lparr>to_peer = 4, handle = 40, bytes = ''SHARE:3:3000000:0'', returned = 13\<rparr>,
         \<lparr>to_peer = 5, handle = 50, bytes = ''SHARE:3:3000000:0'', returned = - 1\<rparr>],
      scheduled := [3], generating := [(3, 3000000)]\<rparr>) \<and>
   run test_platform [Call_GenerateAndGossipShare 0, Call_GenerateAndGossipShare 5]
     (test_node\<lparr>isrunning := True\<rparr>, test_world) =
   Inr (test_node\<lparr>isrunning := True, peersockets := [4 \<mapsto> 40],
                  processedShares := {3001005, 3000000}, sharesSent := 2,
                  sharesGenerated := 2\<rparr>,
        test_world\<lparr>sends :=
            [\<lparr>to_peer = 4, handle = 40, bytes = ''SHARE:3:3000000:0'', returned = 13\<rparr>,
             \<lparr>to_peer = 5, handle = 50, bytes = ''SHARE:3:3000000:0'', returned = - 1\<rparr>,
             \<lparr>to_peer = 4, handle = 40, bytes = ''SHARE:3:3001005:5'', returned = 13\<rparr>],
          scheduled := [3, 3], generating := [(3, 3000000), (3, 3001005)]\<rparr>) \<and>
   event_times [Call_GenerateAndGossipShare 0, Call_GenerateAndGossipShare 5 :: (string, nat) call] =
     [0, 5] \<and>
   (\<forall>x. (ucast (hasher test_platform x) :: uint32) = ucast x) \<and>
   distinct (map snd [(3 :: uint32, 3000000 :: uint32), (3, 3001005)])"
  using created_one_eval created_eval created_one_split_eval created_split_eval
    created_ids_unique [where P = test_platform and m = test_node_sim and v = test_world_sim
      and now = 0
      and ?m1.0 = "test_node_sim\<lparr>m_processedShares :=
        [\<lparr>originNodeId = 3, shareId = 0, timestamp = ''0'', nodesVisited = {3}\<rparr>],
      m_sharesSent := 2, m_sharesGenerated := 1\<rparr>"
      and ?v1.0 = "test_world_sim\<lparr>sent_sim := [(4, ''SHARE:3:0:0''), (5, ''SHARE:3:0:0'')],
      scheduled_sim := [3], generating_sim := [(3, 0)]\<rparr>"
      and ds = "[Sim_GenerateAndGossipShare 0, Sim_GenerateAndGossipShare 0]"
      and m' = "test_node_sim\<lparr>m_processedShares :=
            [\<lparr>originNodeId = 3, shareId = 0, timestamp = ''0'', nodesVisited = {3}\<rparr>,
             \<lparr>originNodeId = 3, shareId = 1, timestamp = ''0'', nodesVisited = {3}\<rparr>],
          m_sharesSent := 4, m_sharesGenerated := 2\<rparr>"
      and v' = "test_world_sim\<lparr>sent_sim := [(4, ''SHARE:3:0:0''), (5, ''SHARE:3:0:0''),
                                     (4, ''SHARE:3:1:0''), (5, ''SHARE:3:1:0'')],
          scheduled_sim := [3, 3], generating_sim := [(3, 0), (3, 1)]\<rparr>"
      and n = "test_node\<lparr>isrunning := True\<rparr>" and w = test_world
      and ?n1.0 = "test_node\<lparr>isrunning := True, peersockets := [4 \<mapsto> 40],
              processedShares := {3000000}, sharesSent := 1, sharesGenerated := 1\<rparr>"
      and ?w1.0 = "test_world\<lparr>sends :=
        [\<lparr>to_peer = 4, handle = 40, bytes = ''SHARE:3:3000000:0'', returned = 13\<rparr>,
         \<lparr>to_peer = 5, handle = 50, bytes = ''SHARE:3:3000000:0'', returned = - 1\<rparr>],
      scheduled := [3], generating := [(3, 3000000)]\<rparr>"
      and cs = "[Call_GenerateAndGossipShare 0, Call_GenerateAndGossipShare 5]"
      and n' = "test_node\<lparr>isrunning := True, peersockets := [4 \<mapsto> 40],
                  processedShares := {3001005, 3000000}, sharesSent := 2,
                  sharesGenerated := 2\<rparr>"
      and w' = "test_world\<lparr>sends :=
            [\<lparr>to_peer = 4, handle = 40, bytes = ''SHARE:3:3000000:0'', returned = 13\<rparr>,
             \<lparr>to_peer = 5, handle = 50, bytes = ''SHARE:3:3000000:0'', returned = - 1\<rparr>,
             \<lparr>to_peer = 4, handle = 40, bytes = ''SHARE:3:3001005:5'', returned = 13\<rparr>],
          scheduled := [3, 3], generating := [(3, 3000000), (3, 3001005)]\<rparr>"]
  by (simp add: test_node_def test_node_sim_def test_platform_def)

text \<open>The counter wraps: of \<open>2 ^ 32 + 1\<close> shares that node 3 of the single-file draft
  creates, the first and the last have the same origin and the same \<open>shareId\<close>.  And the
  hash collides: with the identity for \<^verbatim>\<open>std::hash\<close>, node 3 of the split draft gives the
  share it creates at time step 296 with \<open>4294967\<close> shares behind it the \<open>shareId\<close> of its
  first, since \<open>4294967 * 1000 + 296 = 2 ^ 32\<close>.\<close>

theorem shareId_repeats:
  "map_sum id (\<lambda>nw. (length (generating_sim (snd nw)), generating_sim (snd nw) ! 0,
                       generating_sim (snd nw) ! 4294967296))
     (run_sim test_platform (replicate 4294967297 (Sim_GenerateAndGossipShare 0))
        (test_node_sim, test_world_sim)) = Inr (4294967297, (3, 0), (3, 0)) \<and>
   map_sum id (\<lambda>nw. (length (generating (snd nw)), generating (snd nw) ! 0,
                       generating (snd nw) ! 4294967))
     (run test_platform
        (replicate 4294967 (Call_GenerateAndGossipShare 0) @ [Call_GenerateAndGossipShare 296])
        (test_node\<lparr>isrunning := True\<rparr>, test_world)) =
     Inr (4294968, (3, 3000000), (3, 3000000))"
proof -
  have p: "m_peers test_node_sim \<noteq> []" by (simp add: test_node_sim_def)
  from run_sim_generations [OF p, of test_platform 4294967297 0 test_world_sim]
  obtain m' v' where a: "run_sim test_platform
       (replicate 4294967297 (Sim_GenerateAndGossipShare 0)) (test_node_sim, test_world_sim) =
       Inr (m', v')"
    "generating_sim v' = generating_sim test_world_sim @
       map (\<lambda>i. (m_id test_node_sim, m_sharesGenerated test_node_sim + of_nat i))
         [0..<4294967297]" by blast
  have a2: "generating_sim v' = map (\<lambda>i. (3, of_nat i)) [0..<4294967297]"
    unfolding a(2) by (simp add: test_world_sim_def test_node_sim_def P2PNode_sim_new_def)
  have A: "length (generating_sim v') = 4294967297" "generating_sim v' ! 0 = (3, 0)"
    "generating_sim v' ! 4294967296 = (3, 0)"
    unfolding a2 by simp_all
  let ?ts = "replicate 4294967 0 @ [296] :: uint64 list"
  have q: "peers (test_node\<lparr>isrunning := True\<rparr>) \<noteq> []" "isrunning (test_node\<lparr>isrunning := True\<rparr>)"
    by (simp_all add: test_node_def)
  have cs: "map Call_GenerateAndGossipShare ?ts =
      (replicate 4294967 (Call_GenerateAndGossipShare 0) @ [Call_GenerateAndGossipShare 296]
        :: (string, nat) call list)" by simp
  from run_generations [OF q, of test_platform ?ts test_world]
  obtain n' w' where b: "run test_platform
       (replicate 4294967 (Call_GenerateAndGossipShare 0) @ [Call_GenerateAndGossipShare 296])
       (test_node\<lparr>isrunning := True\<rparr>, test_world) = Inr (n', w')"
    "generating w' = generating test_world @
       map (\<lambda>k. (id_node (test_node\<lparr>isrunning := True\<rparr>), ucast (hasher test_platform
              (ShareId_seed (id_node (test_node\<lparr>isrunning := True\<rparr>))
                 (sharesGenerated (test_node\<lparr>isrunning := True\<rparr>) + of_nat k) (?ts ! k)))))
         [0..<length ?ts]" unfolding cs by blast
  have b2: "generating w' =
      map (\<lambda>k. (3, ucast (ShareId_seed 3 (of_nat k) (?ts ! k)))) [0..<4294968]"
    unfolding b(2)
    by (simp add: test_world_def test_node_def P2PNode_new_def test_platform_def)
  have B: "length (generating w') = 4294968" "generating w' ! 0 = (3, 3000000)"
    "generating w' ! 4294967 = (3, 3000000)"
    unfolding b2 by (simp_all add: nth_append ShareId_seed_def)
  show ?thesis unfolding a(1) b(1) using A B by simp
qed


subsection \<open>The topology of the single-file draft\<close>



lemma draw_other_Some_differs:
  assumes "draw_other nodeDist i k = Some r"
  shows "\<exists>k'. nodeDist k' \<noteq> i"
  using assms
proof (rule draw_other.raw_induct [rotated 1, where P = "\<lambda>nodeDist i k r. \<exists>k'. nodeDist k' \<noteq> i"])
  fix draw :: "(nat \<Rightarrow> nat) \<Rightarrow> nat \<Rightarrow> nat \<Rightarrow> (nat \<times> nat) option"
  fix nodeDist i k r
  assume IH: "\<And>nodeDist i k r. draw nodeDist i k = Some r \<Longrightarrow> \<exists>k'. nodeDist k' \<noteq> i"
    and eq: "(let j = nodeDist k
              in if j = i then draw nodeDist i (Suc k) else Some (j, Suc k)) = Some r"
  show "\<exists>k'. nodeDist k' \<noteq> i"
  proof (cases "nodeDist k = i")
    case True
    then have "draw nodeDist i (Suc k) = Some r" using eq by (simp add: Let_def)
    then show ?thesis by (rule IH)
  next
    case False
    then show ?thesis by blast
  qed
qed

lemma draw_other_None:
  assumes "\<forall>k. nodeDist k = i"
  shows "draw_other nodeDist i k = None"
  using assms draw_other_Some_differs [of nodeDist i k] by (cases "draw_other nodeDist i k") auto

lemma draw_other_Some:
  assumes "nodeDist (k + d) \<noteq> i"
  shows "\<exists>d'. d' \<le> d \<and> nodeDist (k + d') \<noteq> i \<and>
           draw_other nodeDist i k = Some (nodeDist (k + d'), Suc (k + d'))"
  using assms
proof (induction d arbitrary: k)
  case 0
  then show ?case by (subst draw_other.simps) (auto simp: Let_def)
next
  case (Suc d)
  show ?case
  proof (cases "nodeDist k = i")
    case False
    then have "draw_other nodeDist i k = Some (nodeDist k, Suc k)"
      by (subst draw_other.simps) (simp add: Let_def)
    then show ?thesis using False by (intro exI [of _ 0]) simp
  next
    case True
    from Suc.prems have "nodeDist (Suc k + d) \<noteq> i" by simp
    from Suc.IH [OF this] obtain d' where d': "d' \<le> d" "nodeDist (Suc k + d') \<noteq> i"
      "draw_other nodeDist i (Suc k) = Some (nodeDist (Suc k + d'), Suc (Suc k + d'))" by blast
    have "draw_other nodeDist i k = draw_other nodeDist i (Suc k)"
      using True by (subst draw_other.simps) (simp add: Let_def)
    then show ?thesis using d' by (intro exI [of _ "Suc d'"]) simp
  qed
qed


lemma AddPeer_sim_peers: "set (m_peers (AddPeer_sim p n)) = insert p (set (m_peers n))"
  by (auto simp: AddPeer_sim_def)

lemma peers_kept_sim_refl: "peers_kept_sim sim sim"
  by (simp add: peers_kept_sim_def)

lemma peers_kept_sim_trans:
  assumes "peers_kept_sim a b" "peers_kept_sim b c"
  shows "peers_kept_sim a c"
proof -
  have l: "length (m_p2pNodes b) = length (m_p2pNodes a)"
    "length (m_p2pNodes c) = length (m_p2pNodes b)"
    using assms by (simp_all add: peers_kept_sim_def)
  have s: "m_connections a \<subseteq> m_connections c"
    using assms by (auto simp: peers_kept_sim_def)
  have p: "set (m_peers (m_p2pNodes a ! k)) \<subseteq> set (m_peers (m_p2pNodes c ! k))"
    if "k < length (m_p2pNodes a)" for k
  proof -
    have "set (m_peers (m_p2pNodes a ! k)) \<subseteq> set (m_peers (m_p2pNodes b ! k))"
      using assms(1) that by (simp add: peers_kept_sim_def)
    moreover have "set (m_peers (m_p2pNodes b ! k)) \<subseteq> set (m_peers (m_p2pNodes c ! k))"
      using assms(2) that l by (simp add: peers_kept_sim_def)
    ultimately show ?thesis by blast
  qed
  show ?thesis unfolding peers_kept_sim_def using l s p by simp
qed

lemma ConnectNodes_sim_Inr:
  assumes "i < length (m_p2pNodes sim)" "j < length (m_p2pNodes sim)"
  obtains sim1 where "ConnectNodes_sim i j sim = Inr sim1"
    "m_connections sim1 = insert (i, j) (m_connections sim)"
    "peers_kept_sim sim sim1"
    "of_nat j \<in> set (m_peers (m_p2pNodes sim1 ! i))"
    "of_nat i \<in> set (m_peers (m_p2pNodes sim1 ! j))"
proof -
  let ?nodes = "m_p2pNodes sim"
  let ?nodes1 = "?nodes[i := AddPeer_sim (of_nat j) (?nodes ! i)]"
  let ?nodes2 = "?nodes1[j := AddPeer_sim (of_nat i) (?nodes1 ! j)]"
  let ?sim1 = "sim\<lparr>m_connections := insert (i, j) (m_connections sim), m_p2pNodes := ?nodes2\<rparr>"
  have r: "ConnectNodes_sim i j sim = Inr ?sim1"
    using assms by (simp add: ConnectNodes_sim_def Let_def)
  have k: "peers_kept_sim sim ?sim1"
    using assms by (auto simp: peers_kept_sim_def nth_list_update AddPeer_sim_peers)
  have a: "of_nat j \<in> set (m_peers (m_p2pNodes ?sim1 ! i))"
    using assms by (auto simp: nth_list_update AddPeer_sim_peers)
  have b: "of_nat i \<in> set (m_peers (m_p2pNodes ?sim1 ! j))"
    using assms by (auto simp: nth_list_update AddPeer_sim_peers)
  show thesis using that [OF r _ k a b] by simp
qed

lemma links_symmetric_sim_kept:
  assumes "links_symmetric_sim sim" "peers_kept_sim sim sim1"
    "m_connections sim1 = m_connections sim"
  shows "links_symmetric_sim sim1"
  using assms unfolding links_symmetric_sim_def peers_kept_sim_def by fastforce

lemma ConnectNodes_sim_symmetric:
  assumes "i < length (m_p2pNodes sim)" "j < length (m_p2pNodes sim)"
    "links_symmetric_sim sim" "ConnectNodes_sim i j sim = Inr sim1"
  shows "links_symmetric_sim sim1"
proof -
  from ConnectNodes_sim_Inr [OF assms(1,2)] assms(4)
  have c: "m_connections sim1 = insert (i, j) (m_connections sim)"
    and k: "peers_kept_sim sim sim1"
    and a: "of_nat j \<in> set (m_peers (m_p2pNodes sim1 ! i))"
    and b: "of_nat i \<in> set (m_peers (m_p2pNodes sim1 ! j))"
    by auto
  show ?thesis
    unfolding links_symmetric_sim_def
  proof (intro ballI, clarify)
    fix x y assume "(x, y) \<in> m_connections sim1"
    then consider "(x, y) = (i, j)" | "(x, y) \<in> m_connections sim" using c by auto
    then show "x < length (m_p2pNodes sim1) \<and> y < length (m_p2pNodes sim1) \<and>
        of_nat y \<in> set (m_peers (m_p2pNodes sim1 ! x)) \<and>
        of_nat x \<in> set (m_peers (m_p2pNodes sim1 ! y))"
    proof cases
      case 1
      then show ?thesis using a b assms(1,2) k by (simp add: peers_kept_sim_def)
    next
      case 2
      then show ?thesis using assms(3) k
        unfolding links_symmetric_sim_def peers_kept_sim_def by fastforce
    qed
  qed
qed

lemma connect_row_sim_ok:
  assumes "i < length (m_p2pNodes sim)" "\<forall>j \<in> set js. j < length (m_p2pNodes sim)"
    "links_symmetric_sim sim"
  shows "\<exists>sim1 k1. connect_row_sim p dist_rng i js (sim, k) = Inr (sim1, k1) \<and>
           peers_kept_sim sim sim1 \<and> links_symmetric_sim sim1"
  using assms
proof (induction js arbitrary: sim k)
  case Nil
  then show ?case by (simp add: peers_kept_sim_refl)
next
  case (Cons j js)
  show ?case
  proof (cases "dist_rng k < p")
    case False
    then show ?thesis using Cons.IH [of sim "Suc k"] Cons.prems by simp
  next
    case True
    have j: "j < length (m_p2pNodes sim)" using Cons.prems(2) by simp
    from ConnectNodes_sim_Inr [OF Cons.prems(1) j] obtain sim1 where
      c: "ConnectNodes_sim i j sim = Inr sim1" and k: "peers_kept_sim sim sim1" by blast
    have l: "length (m_p2pNodes sim1) = length (m_p2pNodes sim)"
      using k by (simp add: peers_kept_sim_def)
    have s: "links_symmetric_sim sim1"
      by (rule ConnectNodes_sim_symmetric [OF Cons.prems(1) j Cons.prems(3) c])
    from Cons.IH [of sim1 "Suc k"] Cons.prems l s
    obtain sim2 k2 where r: "connect_row_sim p dist_rng i js (sim1, Suc k) = Inr (sim2, k2)"
      "peers_kept_sim sim1 sim2" "links_symmetric_sim sim2" by auto
    show ?thesis using True c r peers_kept_sim_trans [OF k r(2)] by simp
  qed
qed

lemma connect_rows_sim_ok:
  assumes "numNodes = length (m_p2pNodes sim)" "\<forall>i \<in> set is. i < numNodes"
    "links_symmetric_sim sim"
  shows "\<exists>sim1 k1. connect_rows_sim p dist_rng numNodes is (sim, k) = Inr (sim1, k1) \<and>
           peers_kept_sim sim sim1 \<and> links_symmetric_sim sim1"
  using assms
proof (induction "is" arbitrary: sim k)
  case Nil
  then show ?case by (simp add: peers_kept_sim_refl)
next
  case (Cons i "is")
  have i: "i < length (m_p2pNodes sim)" using Cons.prems by simp
  have js: "\<forall>j \<in> set [Suc i..<numNodes]. j < length (m_p2pNodes sim)"
    using Cons.prems(1) by simp
  from connect_row_sim_ok [OF i js Cons.prems(3), of p dist_rng k]
  obtain sim1 k1 where r: "connect_row_sim p dist_rng i [Suc i..<numNodes] (sim, k) = Inr (sim1, k1)"
    "peers_kept_sim sim sim1" "links_symmetric_sim sim1" by blast
  have l: "numNodes = length (m_p2pNodes sim1)"
    using r(2) Cons.prems(1) by (simp add: peers_kept_sim_def)
  from Cons.IH [OF l _ r(3), of k1] Cons.prems(2)
  obtain sim2 k2 where r2: "connect_rows_sim p dist_rng numNodes is (sim1, k1) = Inr (sim2, k2)"
    "peers_kept_sim sim1 sim2" "links_symmetric_sim sim2" by auto
  show ?case using r r2 peers_kept_sim_trans [OF r(2) r2(2)] by simp
qed




lemma link_lonely_sim_ok:
  assumes "numNodes = length (m_p2pNodes sim)" "\<forall>k. nodeDist k < numNodes"
    "\<forall>i < numNodes. \<forall>k. \<exists>d. nodeDist (k + d) \<noteq> i"
    "\<forall>i \<in> set is. i < numNodes"
  shows "\<exists>sim1 k1. link_lonely_sim nodeDist is (sim, k) = Some (Inr (sim1, k1)) \<and>
           peers_kept_sim sim sim1 \<and>
           (\<forall>i \<in> set is. m_peers (m_p2pNodes sim1 ! i) \<noteq> [])"
  using assms(1,4)
proof (induction "is" arbitrary: sim k)
  case Nil
  then show ?case by (simp add: peers_kept_sim_refl)
next
  case (Cons i "is")
  have i: "i < length (m_p2pNodes sim)" using Cons.prems by simp
  show ?case
  proof (cases "m_peers (m_p2pNodes sim ! i) = []")
    case False
    from Cons.IH [of sim k] Cons.prems
    obtain sim1 k1 where r: "link_lonely_sim nodeDist is (sim, k) = Some (Inr (sim1, k1))"
      "peers_kept_sim sim sim1" "\<forall>i \<in> set is. m_peers (m_p2pNodes sim1 ! i) \<noteq> []" by auto
    have "set (m_peers (m_p2pNodes sim ! i)) \<subseteq> set (m_peers (m_p2pNodes sim1 ! i))"
      using r(2) i by (simp add: peers_kept_sim_def)
    then have "m_peers (m_p2pNodes sim1 ! i) \<noteq> []" using False by auto
    then show ?thesis using r False by auto
  next
    case True
    from assms(3) i Cons.prems(1) obtain d where "nodeDist (k + d) \<noteq> i" by blast
    from draw_other_Some [of nodeDist k d i, OF this] obtain d' where
      d: "nodeDist (k + d') \<noteq> i"
      "draw_other nodeDist i k = Some (nodeDist (k + d'), Suc (k + d'))" by blast
    let ?j = "nodeDist (k + d')"
    have j: "?j < length (m_p2pNodes sim)" using assms(2) Cons.prems(1) by simp
    from ConnectNodes_sim_Inr [OF i j] obtain sim2 where
      c: "ConnectNodes_sim i ?j sim = Inr sim2" and kp: "peers_kept_sim sim sim2"
      and a: "of_nat ?j \<in> set (m_peers (m_p2pNodes sim2 ! i))" by blast
    have l: "numNodes = length (m_p2pNodes sim2)"
      using kp Cons.prems(1) by (simp add: peers_kept_sim_def)
    from Cons.IH [OF l, of "Suc (k + d')"] Cons.prems(2)
    obtain sim1 k1 where r: "link_lonely_sim nodeDist is (sim2, Suc (k + d')) = Some (Inr (sim1, k1))"
      "peers_kept_sim sim2 sim1" "\<forall>i \<in> set is. m_peers (m_p2pNodes sim1 ! i) \<noteq> []" by auto
    have "set (m_peers (m_p2pNodes sim2 ! i)) \<subseteq> set (m_peers (m_p2pNodes sim1 ! i))"
      using r(2) i l Cons.prems(1) by (simp add: peers_kept_sim_def)
    then have "m_peers (m_p2pNodes sim1 ! i) \<noteq> []" using a by auto
    then show ?thesis
      using True d(2) c r peers_kept_sim_trans [OF kp r(2)] by auto
  qed
qed


lemma CreateRandomTopology_sim_ok:
  assumes "\<forall>k. nodeDist k < length (m_p2pNodes sim)"
    "\<forall>i < length (m_p2pNodes sim). \<forall>k. \<exists>d. nodeDist (k + d) \<noteq> i"
    "links_symmetric_sim sim"
  shows "\<exists>sim1. CreateRandomTopology_sim p dist_rng nodeDist sim = Some (Inr sim1) \<and>
           peers_kept_sim sim sim1 \<and>
           (\<forall>i < length (m_p2pNodes sim). m_peers (m_p2pNodes sim1 ! i) \<noteq> [])"
proof -
  let ?n = "length (m_p2pNodes sim)"
  from connect_rows_sim_ok [OF refl _ assms(3), of "[0..<?n]" p dist_rng 0]
  obtain sim2 k2 where 1: "connect_rows_sim p dist_rng ?n [0..<?n] (sim, 0) = Inr (sim2, k2)"
    "peers_kept_sim sim sim2" by auto
  have l: "?n = length (m_p2pNodes sim2)" using 1(2) by (simp add: peers_kept_sim_def)
  from link_lonely_sim_ok [OF l assms(1,2), of "[0..<?n]" 0]
  obtain sim1 k1 where 2: "link_lonely_sim nodeDist [0..<?n] (sim2, 0) = Some (Inr (sim1, k1))"
    "peers_kept_sim sim2 sim1" "\<forall>i \<in> set [0..<?n]. m_peers (m_p2pNodes sim1 ! i) \<noteq> []"
    by auto
  have "CreateRandomTopology_sim p dist_rng nodeDist sim = Some (Inr sim1)"
    using 1(1) 2(1) by (simp add: CreateRandomTopology_sim_def Let_def)
  then show ?thesis using peers_kept_sim_trans [OF 1(2) 2(2)] 2(3) by auto
qed

lemma CreateRandomTopology_sim_one_node:
  "CreateRandomTopology_sim p dist_rng (\<lambda>k. 0) (P2PGossipNetworkSimulation_sim 1) = None"
proof -
  have d: "draw_other (\<lambda>k. 0) 0 k = None" for k
    by (rule draw_other_None) simp
  show ?thesis
    by (simp add: CreateRandomTopology_sim_def P2PGossipNetworkSimulation_sim_def
        P2PNode_sim_new_def d)
qed


subsection \<open>Registrations\<close>










subsection \<open>The topology of the split draft\<close>


lemma set_map_assign: "set (map_assign key keys) = insert key (set keys)"
  by (auto simp: map_assign_def set_insort_key)

lemma ConnectNodes_Inr:
  assumes "i < length (p2pNodes sim)" "j < length (p2pNodes sim)"
  shows "ConnectNodes i j sim = Inr (sim\<lparr>connections := map_assign (i, j) (connections sim)\<rparr>)"
  using assms by (simp add: ConnectNodes_def)

lemma connect_row_ok:
  assumes "i < length (p2pNodes sim)" "\<forall>j \<in> set js. j < length (p2pNodes sim)"
    "links_in_range sim"
  shows "\<exists>sim1 k1 c1. connect_row p dist_rng i js (sim, k, c) = Inr (sim1, k1, c1) \<and>
           p2pNodes sim1 = p2pNodes sim \<and> net sim1 = net sim \<and> links_in_range sim1 \<and>
           set (connections sim) \<subseteq> set (connections sim1) \<and>
           (c1 \<longrightarrow> c \<or> (\<exists>j. (i, j) \<in> set (connections sim1)))"
  using assms
proof (induction js arbitrary: sim k c)
  case Nil
  then show ?case by simp
next
  case (Cons j js)
  show ?case
  proof (cases "dist_rng k < p")
    case False
    then show ?thesis using Cons.IH [of sim "Suc k" c] Cons.prems by simp
  next
    case True
    have j: "j < length (p2pNodes sim)" using Cons.prems(2) by simp
    let ?sim1 = "sim\<lparr>connections := map_assign (i, j) (connections sim)\<rparr>"
    have c1: "ConnectNodes i j sim = Inr ?sim1" by (rule ConnectNodes_Inr [OF Cons.prems(1) j])
    have r1: "links_in_range ?sim1"
      using Cons.prems(1,3) j by (auto simp: links_in_range_def set_map_assign)
    from Cons.IH [of ?sim1 "Suc k" True] Cons.prems r1
    obtain sim2 k2 c2 where r: "connect_row p dist_rng i js (?sim1, Suc k, True) = Inr (sim2, k2, c2)"
      "p2pNodes sim2 = p2pNodes sim" "net sim2 = net sim" "links_in_range sim2"
      "set (connections ?sim1) \<subseteq> set (connections sim2)" by auto
    have "(i, j) \<in> set (connections sim2)" using r(5) by (auto simp: set_map_assign)
    moreover have "set (connections sim) \<subseteq> set (connections sim2)"
      using r(5) by (auto simp: set_map_assign)
    ultimately show ?thesis using True c1 r by auto
  qed
qed

lemma connect_rows_ok:
  assumes "numNodes = length (p2pNodes sim)" "2 \<le> numNodes" "\<forall>i \<in> set is. i < numNodes"
    "links_in_range sim"
  shows "\<exists>sim1 k1. connect_rows p dist_rng numNodes is (sim, k) = Inr (sim1, k1) \<and>
           p2pNodes sim1 = p2pNodes sim \<and> net sim1 = net sim \<and> links_in_range sim1 \<and>
           set (connections sim) \<subseteq> set (connections sim1) \<and>
           (\<forall>i \<in> set is. \<exists>j. (i, j) \<in> set (connections sim1))"
  using assms(1,3,4)
proof (induction "is" arbitrary: sim k)
  case Nil
  then show ?case by simp
next
  case (Cons i "is")
  have i: "i < length (p2pNodes sim)" using Cons.prems by simp
  have js: "\<forall>j \<in> set [Suc i..<numNodes]. j < length (p2pNodes sim)"
    using Cons.prems(1) by simp
  from connect_row_ok [OF i js Cons.prems(3), of p dist_rng k False]
  obtain sim1 k1 c1 where r: "connect_row p dist_rng i [Suc i..<numNodes] (sim, k, False) =
      Inr (sim1, k1, c1)" "p2pNodes sim1 = p2pNodes sim" "net sim1 = net sim"
    "links_in_range sim1" "set (connections sim) \<subseteq> set (connections sim1)"
    "c1 \<longrightarrow> (\<exists>j. (i, j) \<in> set (connections sim1))" by auto
  show ?case
  proof (cases c1)
    case True
    from Cons.IH [of sim1 k1] Cons.prems r(2,4)
    obtain sim2 k2 where r2: "connect_rows p dist_rng numNodes is (sim1, k1) = Inr (sim2, k2)"
      "p2pNodes sim2 = p2pNodes sim1" "net sim2 = net sim1" "links_in_range sim2"
      "set (connections sim1) \<subseteq> set (connections sim2)"
      "\<forall>i \<in> set is. \<exists>j. (i, j) \<in> set (connections sim2)" by auto
    have "\<exists>j. (i, j) \<in> set (connections sim2)" using r(6) True r2(5) by auto
    then show ?thesis using True r r2 by auto
  next
    case False
    let ?j = "if i = 0 then 1 else i - 1"
    have j: "?j < length (p2pNodes sim1)" using i assms(2) Cons.prems(1) r(2) by auto
    have i1: "i < length (p2pNodes sim1)" using i r(2) by simp
    let ?sim2 = "sim1\<lparr>connections := map_assign (i, ?j) (connections sim1)\<rparr>"
    have c: "(if i = 0 \<and> 0 < numNodes then ConnectNodes 0 1 sim1
              else ConnectNodes i (i - 1) sim1) = Inr ?sim2"
      using ConnectNodes_Inr [OF i1 j] assms(2) by auto
    have lr: "links_in_range ?sim2"
      using r(4) i1 j by (auto simp: links_in_range_def set_map_assign)
    from Cons.IH [of ?sim2 k1] Cons.prems r(2) lr
    obtain sim3 k3 where r3: "connect_rows p dist_rng numNodes is (?sim2, k1) = Inr (sim3, k3)"
      "p2pNodes sim3 = p2pNodes ?sim2" "net sim3 = net ?sim2" "links_in_range sim3"
      "set (connections ?sim2) \<subseteq> set (connections sim3)"
      "\<forall>i \<in> set is. \<exists>j. (i, j) \<in> set (connections sim3)" by auto
    have "(i, ?j) \<in> set (connections sim3)" using r3(5) by (auto simp: set_map_assign)
    then have e: "\<exists>j. (i, j) \<in> set (connections sim3)" by blast
    have sub: "set (connections sim) \<subseteq> set (connections sim3)"
      using r(5) r3(5) by (auto simp: set_map_assign)
    have "connect_rows p dist_rng numNodes (i # is) (sim, k) = Inr (sim3, k3)"
      using r(1) False c r3(1) by simp
    then show ?thesis using r(2,3) r3(2,3,4,6) e sub by auto
  qed
qed


lemma CreateRandomTopology_ok:
  assumes "2 \<le> length (p2pNodes sim)" "links_in_range sim"
  shows "\<exists>sim1. CreateRandomTopology p dist_rng sim = Inr sim1 \<and>
           length (p2pNodes sim1) = length (p2pNodes sim) \<and> net sim1 = net sim \<and>
           links_in_range sim1 \<and>
           (\<forall>i < length (p2pNodes sim).
              peers (p2pNodes sim1 ! i) = peers (p2pNodes sim ! i) \<and>
              (\<exists>j. (i, j) \<in> set (connections sim1)))"
proof -
  let ?n = "length (p2pNodes sim)"
  from connect_rows_ok [OF refl assms(1) _ assms(2), of "[0..<?n]" p dist_rng 0]
  obtain sim1 k1 where r: "connect_rows p dist_rng ?n [0..<?n] (sim, 0) = Inr (sim1, k1)"
    "p2pNodes sim1 = p2pNodes sim" "net sim1 = net sim" "links_in_range sim1"
    "\<forall>i \<in> set [0..<?n]. \<exists>j. (i, j) \<in> set (connections sim1)" by auto
  let ?sim2 = "sim1\<lparr>p2pNodes :=
      map (\<lambda>i. SetupServerSocket (Listening i) (p2pNodes sim1 ! i)) [0..<?n]\<rparr>"
  have c: "CreateRandomTopology p dist_rng sim = Inr ?sim2"
    using r(1) by (simp add: CreateRandomTopology_def Let_def)
  have "links_in_range ?sim2" using r(4,2) by (simp add: links_in_range_def)
  then show ?thesis using c r(2,3,5) by (auto simp: SetupServerSocket_def)
qed

lemma CreateRandomTopology_one_node:
  "CreateRandomTopology p dist_rng (P2PGossipNetworkSimulation 1 w) = Inl index_out_of_range"
  by (simp add: CreateRandomTopology_def P2PGossipNetworkSimulation_def ConnectNodes_def)

lemma AddPeer_peers: "set (peers (AddPeer p n)) = insert p (set (peers n))"
  by (auto simp: AddPeer_def)

lemma peers_kept_refl: "peers_kept sim sim"
  by (simp add: peers_kept_def)

lemma peers_kept_trans: "peers_kept a b \<Longrightarrow> peers_kept b c \<Longrightarrow> peers_kept a c"
  by (auto simp: peers_kept_def)

lemma ConnectPeerSockets_ok:
  assumes "i < length (p2pNodes sim)" "j < length (p2pNodes sim)"
  shows "\<exists>sim1. ConnectPeerSockets i j sim = Inr sim1 \<and> peers_kept sim sim1 \<and>
           of_nat j \<in> set (peers (p2pNodes sim1 ! i))"
  using assms
  by (auto simp: ConnectPeerSockets_def Let_def Send_def peers_kept_def nth_list_update
      AddPeer_peers AddPeerSocket_def)

lemma makeconnections_loop_ok:
  assumes "\<forall>(a, b) \<in> set ls. a < length (p2pNodes sim) \<and> b < length (p2pNodes sim)"
  shows "\<exists>sim1. makeconnections_loop ls sim = Inr sim1 \<and> peers_kept sim sim1 \<and>
           (\<forall>(a, b) \<in> set ls. of_nat b \<in> set (peers (p2pNodes sim1 ! a)))"
  using assms
proof (induction ls arbitrary: sim)
  case Nil
  then show ?case by (simp add: peers_kept_refl)
next
  case (Cons l ls)
  obtain a b where l: "l = (a, b)" by (cases l)
  have ab: "a < length (p2pNodes sim)" "b < length (p2pNodes sim)" using Cons.prems l by auto
  from ConnectPeerSockets_ok [OF ab] obtain sim1 where
    c: "ConnectPeerSockets a b sim = Inr sim1" "peers_kept sim sim1"
    "of_nat b \<in> set (peers (p2pNodes sim1 ! a))" by blast
  have len: "length (p2pNodes sim1) = length (p2pNodes sim)" using c(2) by (simp add: peers_kept_def)
  from Cons.IH [of sim1] Cons.prems len
  obtain sim2 where r: "makeconnections_loop ls sim1 = Inr sim2" "peers_kept sim1 sim2"
    "\<forall>(a, b) \<in> set ls. of_nat b \<in> set (peers (p2pNodes sim2 ! a))" by auto
  have "of_nat b \<in> set (peers (p2pNodes sim2 ! a))"
    using c(3) r(2) ab(1) len unfolding peers_kept_def by auto
  then show ?case using l c(1) r peers_kept_trans [OF c(2) r(2)] by auto
qed







lemma makeconnections_peers:
  assumes "links_in_range sim" "\<forall>i < length (p2pNodes sim). \<exists>j. (i, j) \<in> set (connections sim)"
  shows "\<exists>sim1. makeconnections sim = Inr sim1 \<and> peers_kept sim sim1 \<and>
           (\<forall>i < length (p2pNodes sim). peers (p2pNodes sim1 ! i) \<noteq> [])"
proof -
  have rng: "\<forall>(a, b) \<in> set (connections sim). a < length (p2pNodes sim) \<and> b < length (p2pNodes sim)"
    using assms(1) by (simp add: links_in_range_def)
  from makeconnections_loop_ok [OF rng] obtain sim1 where
    m: "makeconnections sim = Inr sim1" "peers_kept sim sim1"
    "\<forall>(a, b) \<in> set (connections sim). of_nat b \<in> set (peers (p2pNodes sim1 ! a))"
    by (auto simp: makeconnections_def)
  have "peers (p2pNodes sim1 ! i) \<noteq> []" if "i < length (p2pNodes sim)" for i
  proof -
    from assms(2) that obtain j where "(i, j) \<in> set (connections sim)" by blast
    then have "of_nat j \<in> set (peers (p2pNodes sim1 ! i))" using m(3) by auto
    then show ?thesis by auto
  qed
  then show ?thesis using m(1,2) by blast
qed


subsection \<open>The claims on the topology\<close>


lemma links_symmetric_sim_new: "links_symmetric_sim (P2PGossipNetworkSimulation_sim numNodes)"
  by (simp add: links_symmetric_sim_def P2PGossipNetworkSimulation_sim_def)

lemma links_in_range_new: "links_in_range (P2PGossipNetworkSimulation numNodes w)"
  by (simp add: links_in_range_def P2PGossipNetworkSimulation_def)






text \<open>
  C6.  For two nodes or more.  Single-file draft: when every draw of \<^verbatim>\<open>nodeDist\<close> is a
  node index and every retry loop draws an index other than \<open>i\<close> at some point,
  \<^verbatim>\<open>CreateRandomTopology\<close> returns and every node has a peer.  Split draft:
  \<^verbatim>\<open>CreateRandomTopology\<close> returns, every node \<open>i\<close> is the first end of a link, and the
  peer lists are still empty; \<^verbatim>\<open>makeconnections\<close>, the event it schedules, returns and
  leaves every node with a peer.
\<close>

theorem topology_min_degree:
  "(2 \<le> unat numNodes \<and> (\<forall>k. nodeDist k < unat numNodes) \<and>
    (\<forall>i < unat numNodes. \<forall>k. \<exists>d. nodeDist (k + d) \<noteq> i) \<longrightarrow>
      (\<exists>sim1. CreateRandomTopology_sim p dist_rng nodeDist
                 (P2PGossipNetworkSimulation_sim numNodes :: 'd Simulation_sim) = Some (Inr sim1) \<and>
         length (m_p2pNodes sim1) = unat numNodes \<and>
         (\<forall>i < unat numNodes. m_peers (m_p2pNodes sim1 ! i) \<noteq> []))) \<and>
   (2 \<le> unat numNodes \<longrightarrow>
      (\<exists>net1 net2. CreateRandomTopology p dist_rng (P2PGossipNetworkSimulation numNodes w) =
           Inr net1 \<and>
         (\<forall>i < unat numNodes. peers (p2pNodes net1 ! i) = [] \<and>
            (\<exists>j. (i, j) \<in> set (connections net1))) \<and>
         makeconnections net1 = Inr net2 \<and>
         length (p2pNodes net2) = unat numNodes \<and>
         (\<forall>i < unat numNodes. peers (p2pNodes net2 ! i) \<noteq> [])))"
proof -
  let ?sim = "P2PGossipNetworkSimulation_sim numNodes :: 'd Simulation_sim"
  let ?net = "P2PGossipNetworkSimulation numNodes w"
  have lenA: "length (m_p2pNodes ?sim) = unat numNodes"
    by (simp add: P2PGossipNetworkSimulation_sim_def)
  have lenB: "length (p2pNodes ?net) = unat numNodes"
    by (simp add: P2PGossipNetworkSimulation_def)
  have A: "\<exists>sim1. CreateRandomTopology_sim p dist_rng nodeDist ?sim = Some (Inr sim1) \<and>
         length (m_p2pNodes sim1) = unat numNodes \<and>
         (\<forall>i < unat numNodes. m_peers (m_p2pNodes sim1 ! i) \<noteq> [])"
    if h: "\<forall>k. nodeDist k < unat numNodes" "\<forall>i < unat numNodes. \<forall>k. \<exists>d. nodeDist (k + d) \<noteq> i"
  proof -
    have s: "links_symmetric_sim ?sim" by (rule links_symmetric_sim_new)
    have h1: "\<forall>k. nodeDist k < length (m_p2pNodes ?sim)" using h(1) lenA by simp
    have h2: "\<forall>i < length (m_p2pNodes ?sim). \<forall>k. \<exists>d. nodeDist (k + d) \<noteq> i"
      using h(2) lenA by simp
    from CreateRandomTopology_sim_ok [OF h1 h2 s, of p dist_rng] lenA
    obtain sim1 where "CreateRandomTopology_sim p dist_rng nodeDist ?sim = Some (Inr sim1)"
      "peers_kept_sim ?sim sim1" "\<forall>i < unat numNodes. m_peers (m_p2pNodes sim1 ! i) \<noteq> []"
      by auto
    then show ?thesis using lenA by (auto simp: peers_kept_sim_def)
  qed
  have B: "\<exists>net1 net2. CreateRandomTopology p dist_rng ?net = Inr net1 \<and>
         (\<forall>i < unat numNodes. peers (p2pNodes net1 ! i) = [] \<and>
            (\<exists>j. (i, j) \<in> set (connections net1))) \<and>
         makeconnections net1 = Inr net2 \<and>
         length (p2pNodes net2) = unat numNodes \<and>
         (\<forall>i < unat numNodes. peers (p2pNodes net2 ! i) \<noteq> [])"
    if h: "2 \<le> unat numNodes"
  proof -
    have two: "2 \<le> length (p2pNodes ?net)" using h lenB by simp
    from CreateRandomTopology_ok [OF two links_in_range_new, of p dist_rng]
    obtain net1 where c: "CreateRandomTopology p dist_rng ?net = Inr net1"
      "length (p2pNodes net1) = length (p2pNodes ?net)" "links_in_range net1"
      "\<forall>i < length (p2pNodes ?net). peers (p2pNodes net1 ! i) = peers (p2pNodes ?net ! i) \<and>
          (\<exists>j. (i, j) \<in> set (connections net1))" by blast
    have fresh: "peers (p2pNodes ?net ! i) = []" if "i < unat numNodes" for i
      using that by (simp add: P2PGossipNetworkSimulation_def P2PNode_new_def)
    have every: "\<forall>i < length (p2pNodes net1). \<exists>j. (i, j) \<in> set (connections net1)"
      using c(2,4) by simp
    from makeconnections_peers [OF c(3) every]
    obtain net2 where m: "makeconnections net1 = Inr net2" "peers_kept net1 net2"
      "\<forall>i < length (p2pNodes net1). peers (p2pNodes net2 ! i) \<noteq> []" by blast
    have "length (p2pNodes net2) = unat numNodes"
      using m(2) c(2) lenB by (simp add: peers_kept_def)
    then show ?thesis using c(1,2,4) fresh m(1,3) lenB by auto
  qed
  show ?thesis using A B by blast
qed


theorem topology_min_degree_witness:
  "(\<exists>sim1. CreateRandomTopology_sim 1 (\<lambda>k. 0) (\<lambda>k. k mod 2)
              (P2PGossipNetworkSimulation_sim 2 :: string Simulation_sim) = Some (Inr sim1) \<and>
      length (m_p2pNodes sim1) = 2 \<and> m_peers (m_p2pNodes sim1 ! 0) \<noteq> [] \<and>
      m_peers (m_p2pNodes sim1 ! 1) \<noteq> []) \<and>
   (\<exists>net1 net2. CreateRandomTopology 1 (\<lambda>k. 0) (P2PGossipNetworkSimulation 2 test_net) = Inr net1 \<and>
      peers (p2pNodes net1 ! 0) = [] \<and> peers (p2pNodes net1 ! 1) = [] \<and>
      makeconnections net1 = Inr net2 \<and> length (p2pNodes net2) = 2 \<and>
      peers (p2pNodes net2 ! 0) \<noteq> [] \<and> peers (p2pNodes net2 ! 1) \<noteq> [])"
proof -
  have two: "2 \<le> unat (2 :: uint32)" by simp
  have rng: "\<forall>k. k mod 2 < unat (2 :: uint32)" by simp
  have fair: "\<forall>i < unat (2 :: uint32). \<forall>k. \<exists>d. (k + d) mod 2 \<noteq> i"
  proof (intro allI impI)
    fix i k :: nat
    show "\<exists>d. (k + d) mod 2 \<noteq> i"
    proof (cases "k mod 2 = i")
      case False
      then show ?thesis by (intro exI [of _ 0]) simp
    next
      case True
      then have "(k + 1) mod 2 \<noteq> i" by presburger
      then show ?thesis by blast
    qed
  qed
  have u: "unat (2 :: uint32) = 2" by simp
  from topology_min_degree [where numNodes = 2 and nodeDist = "\<lambda>k. k mod 2" and p = 1
      and dist_rng = "\<lambda>k. 0" and w = test_net, where ?'d = string] two rng fair
  show ?thesis unfolding u by (auto simp: numeral_2_eq_2)
qed

text \<open>With one node neither draft completes: the single-file draft draws node 0 for
  node 0 for ever, and the split draft calls \<^verbatim>\<open>ConnectNodes(0, 1)\<close>, which indexes a node
  that is not there.\<close>

theorem topology_one_node:
  "CreateRandomTopology_sim 0 (\<lambda>k. 0) (\<lambda>k. 0)
     (P2PGossipNetworkSimulation_sim 1 :: string Simulation_sim) = None \<and>
   CreateRandomTopology 0 (\<lambda>k. 0) (P2PGossipNetworkSimulation 1 test_net) =
     Inl index_out_of_range"
  using CreateRandomTopology_sim_one_node [of 0 "\<lambda>k. 0"]
    CreateRandomTopology_one_node [of 0 "\<lambda>k. 0" test_net]
  by simp


end
